theory Spec2Isabelle
  imports Main
begin

section \<open>JSON values and the Python operations applied to them\<close>

text \<open>
  The scraper works on whatever \<^verbatim>\<open>json.load\<close> / \<^verbatim>\<open>json.loads\<close> returns: nested
  Python dicts, lists, strings, numbers, booleans and \<^verbatim>\<open>None\<close>. A dict is kept as the
  list of its items in insertion order (its keys are distinct, as in every Python dict);
  numbers are the integers (the API's ids and quantities; JSON floats are not modelled).
  A string is a list of characters, and a character is a Unicode code point below 256
  (\<open>CHR 0xA0\<close> is the no-break space U+00A0); text with code points from 256 on is
  outside the model.
\<close>

datatype json =
    JNull
  | JBool bool
  | JNum int
  | JStr string
  | JArr "json list"
  | JObj "(string \<times> json) list"

text \<open>
  Every exception the code can raise is a value. The first four are raised by Python's
  own operations on a value of the wrong shape, \<open>RuntimeError\<close> by the explicit
  \<^verbatim>\<open>raise\<close> statements of \<^verbatim>\<open>fetch_all_orders\<close>, \<open>ConnectionError\<close> and
  \<open>ValueError\<close> by \<^verbatim>\<open>requests.post\<close> and \<^verbatim>\<open>json.loads\<close> inside \<^verbatim>\<open>fetch_orders\<close>;
  \<open>IOError\<close> (Python's \<^verbatim>\<open>OSError\<close>) by \<^verbatim>\<open>open\<close>, \<open>ValueError\<close> and
  \<open>RecursionError\<close> by \<^verbatim>\<open>json.load\<close> on a file.
\<close>

datatype error =
    KeyError
  | TypeError
  | IndexError
  | AttributeError
  | RuntimeError string
  | ConnectionError
  | ValueError
  | IOError
  | RecursionError

text \<open>Sequencing of statements that may raise: the first exception wins.\<close>

definition bnd :: "error + 'a \<Rightarrow> ('a \<Rightarrow> error + 'b) \<Rightarrow> error + 'b" where
  "bnd m f = (case m of Inl e \<Rightarrow> Inl e | Inr v \<Rightarrow> f v)"

subsection \<open>Truthiness, lookup, membership, iteration\<close>

text \<open>\<^verbatim>\<open>bool(x)\<close>, as used by \<^verbatim>\<open>if x\<close>, \<^verbatim>\<open>not x\<close> and \<^verbatim>\<open>x or y\<close>.\<close>

fun py_truthy :: "json \<Rightarrow> bool" where
  "py_truthy JNull = False"
| "py_truthy (JBool b) = b"
| "py_truthy (JNum n) = (n \<noteq> 0)"
| "py_truthy (JStr s) = (s \<noteq> [])"
| "py_truthy (JArr xs) = (xs \<noteq> [])"
| "py_truthy (JObj kvs) = (kvs \<noteq> [])"

text \<open>\<^verbatim>\<open>x or y\<close> on values: \<^verbatim>\<open>x\<close> when it is truthy, otherwise \<^verbatim>\<open>y\<close>.\<close>

definition py_or :: "json \<Rightarrow> json \<Rightarrow> json" where
  "py_or x y = (if py_truthy x then x else y)"

text \<open>\<^verbatim>\<open>x[key]\<close> with a string key: only a dict accepts it.\<close>

fun py_getitem :: "json \<Rightarrow> string \<Rightarrow> error + json" where
  "py_getitem (JObj kvs) k = (case map_of kvs k of None \<Rightarrow> Inl KeyError | Some v \<Rightarrow> Inr v)"
| "py_getitem _ k = Inl TypeError"

text \<open>
  \<^verbatim>\<open>x[0]\<close>: the first element of a list, the first character of a string; a dict
  decoded from JSON has string keys only, so \<^verbatim>\<open>0\<close> is never one of them.
\<close>

fun py_first :: "json \<Rightarrow> error + json" where
  "py_first (JArr []) = Inl IndexError"
| "py_first (JArr (x # xs)) = Inr x"
| "py_first (JStr []) = Inl IndexError"
| "py_first (JStr (c # cs)) = Inr (JStr [c])"
| "py_first (JObj kvs) = Inl KeyError"
| "py_first _ = Inl TypeError"

text \<open>\<^verbatim>\<open>x.get(key)\<close> and \<^verbatim>\<open>x.get(key, default)\<close>: methods of dict only.\<close>

fun py_get_default :: "json \<Rightarrow> string \<Rightarrow> json \<Rightarrow> error + json" where
  "py_get_default (JObj kvs) k d = Inr (case map_of kvs k of None \<Rightarrow> d | Some v \<Rightarrow> v)"
| "py_get_default _ k d = Inl AttributeError"

definition py_get :: "json \<Rightarrow> string \<Rightarrow> error + json" where
  "py_get x k = py_get_default x k JNull"

text \<open>\<^verbatim>\<open>list(x.keys())\<close>.\<close>

fun py_keys :: "json \<Rightarrow> error + string list" where
  "py_keys (JObj kvs) = Inr (map fst kvs)"
| "py_keys _ = Inl AttributeError"

text \<open>Whether \<open>p\<close> starts \<open>s\<close>, and whether \<open>p\<close> occurs in \<open>s\<close> as a substring.\<close>

fun starts_with :: "string \<Rightarrow> string \<Rightarrow> bool" where
  "starts_with [] s = True"
| "starts_with (p # ps) [] = False"
| "starts_with (p # ps) (c # cs) = (p = c \<and> starts_with ps cs)"

fun is_substring :: "string \<Rightarrow> string \<Rightarrow> bool" where
  "is_substring p [] = (p = [])"
| "is_substring p (c # cs) = (starts_with p (c # cs) \<or> is_substring p cs)"

text \<open>
  \<^verbatim>\<open>key in x\<close> with a string on the left: key membership for a dict, element
  membership for a list, substring for a string, \<^verbatim>\<open>TypeError\<close> for anything else.
\<close>

fun py_in :: "string \<Rightarrow> json \<Rightarrow> error + bool" where
  "py_in k (JObj kvs) = Inr (map_of kvs k \<noteq> None)"
| "py_in k (JArr xs) = Inr (JStr k \<in> set xs)"
| "py_in k (JStr s) = Inr (is_substring k s)"
| "py_in k _ = Inl TypeError"

text \<open>
  What \<^verbatim>\<open>for v in x\<close> and \<^verbatim>\<open>yield from x\<close> run through: the elements of a list, the
  keys of a dict, the characters of a string.
\<close>

fun py_iter :: "json \<Rightarrow> error + json list" where
  "py_iter (JArr xs) = Inr xs"
| "py_iter (JObj kvs) = Inr (map (\<lambda>kv. JStr (fst kv)) kvs)"
| "py_iter (JStr s) = Inr (map (\<lambda>c. JStr [c]) s)"
| "py_iter _ = Inl TypeError"

subsection \<open>Formatting: \<^verbatim>\<open>str\<close>, \<^verbatim>\<open>repr\<close>, \<^verbatim>\<open>join\<close>, \<^verbatim>\<open>strip\<close>\<close>

definition digit_char :: "nat \<Rightarrow> char" where
  "digit_char d =
     (if d = 0 then CHR ''0'' else if d = 1 then CHR ''1'' else if d = 2 then CHR ''2''
      else if d = 3 then CHR ''3'' else if d = 4 then CHR ''4'' else if d = 5 then CHR ''5''
      else if d = 6 then CHR ''6'' else if d = 7 then CHR ''7'' else if d = 8 then CHR ''8''
      else CHR ''9'')"

fun str_nat :: "nat \<Rightarrow> string" where
  "str_nat n = (if n < 10 then [digit_char n] else str_nat (n div 10) @ [digit_char (n mod 10)])"

declare str_nat.simps [simp del]

definition str_int :: "int \<Rightarrow> string" where
  "str_int i = (if i < 0 then CHR ''-'' # str_nat (nat (- i)) else str_nat (nat i))"

text \<open>\<^verbatim>\<open>sep.join(xs)\<close>.\<close>

fun join :: "string \<Rightarrow> string list \<Rightarrow> string" where
  "join sep [] = []"
| "join sep [x] = x"
| "join sep (x # y # ys) = x @ sep @ join sep (y # ys)"

text \<open>
  \<^verbatim>\<open>repr\<close> of a string: single quotes, unless the text holds a single quote and no
  double quote; the quote in use and the backslash are escaped, tab, newline and
  carriage return are written \<^verbatim>\<open>\t \n \r\<close>, and every other character that is
  not printable as \<^verbatim>\<open>\xhh\<close>: below 256 these are the code points under 0x20, those
  from 0x7F to 0xA0, and 0xAD.
\<close>

definition hex_char :: "nat \<Rightarrow> char" where
  "hex_char d =
     (if d < 10 then digit_char d else if d = 10 then CHR ''a'' else if d = 11 then CHR ''b''
      else if d = 12 then CHR ''c'' else if d = 13 then CHR ''d'' else if d = 14 then CHR ''e''
      else CHR ''f'')"

definition repr_char :: "char \<Rightarrow> char \<Rightarrow> string" where
  "repr_char q c =
     (if c = q \<or> c = CHR 0x5C then [CHR 0x5C, c]
      else if c = CHR 0x09 then [CHR 0x5C, CHR ''t'']
      else if c = CHR 0x0A then [CHR 0x5C, CHR ''n'']
      else if c = CHR 0x0D then [CHR 0x5C, CHR ''r'']
      else if of_char c < (32::nat) \<or> ((127::nat) \<le> of_char c \<and> of_char c \<le> (160::nat))
              \<or> of_char c = (173::nat)
        then [CHR 0x5C, CHR ''x'', hex_char (of_char c div 16), hex_char (of_char c mod 16)]
      else [c])"

definition repr_str :: "string \<Rightarrow> string" where
  "repr_str s =
     (let q = (if CHR 0x27 \<in> set s \<and> CHR 0x22 \<notin> set s then CHR 0x22 else CHR 0x27)
      in q # concat (map (repr_char q) s) @ [q])"

fun py_repr :: "json \<Rightarrow> string" where
  "py_repr JNull = ''None''"
| "py_repr (JBool b) = (if b then ''True'' else ''False'')"
| "py_repr (JNum n) = str_int n"
| "py_repr (JStr s) = repr_str s"
| "py_repr (JArr xs) = ''['' @ join '', '' (map py_repr xs) @ '']''"
| "py_repr (JObj kvs) =
     ''{'' @ join '', '' (map (\<lambda>(k, v). repr_str k @ '': '' @ py_repr v) kvs) @ ''}''"

text \<open>\<^verbatim>\<open>str(x)\<close>, which is what an f-string field \<^verbatim>\<open>{x}\<close> inserts.\<close>

fun py_str :: "json \<Rightarrow> string" where
  "py_str (JStr s) = s"
| "py_str x = py_repr x"

text \<open>
  \<^verbatim>\<open>str.strip()\<close>: drops leading and trailing whitespace. Below 256 the whitespace
  characters of Python are U+0009 to U+000D, U+001C to U+001F, the space, U+0085 and
  the no-break space U+00A0.
\<close>

definition py_isspace :: "char \<Rightarrow> bool" where
  "py_isspace c \<longleftrightarrow> c \<in> set [CHR 0x20, CHR 0x09, CHR 0x0A, CHR 0x0B, CHR 0x0C, CHR 0x0D,
                                CHR 0x1C, CHR 0x1D, CHR 0x1E, CHR 0x1F, CHR 0x85, CHR 0xA0]"

definition strip :: "string \<Rightarrow> string" where
  "strip s = rev (dropWhile py_isspace (rev (dropWhile py_isspace s)))"

section \<open>One page of orders: cache and network\<close>

text \<open>
  The working directory gives every file name a state. A name may have no file
  (\<open>Absent\<close>: reading raises, writing creates the file); it may be a file that can be
  read and written (\<open>Regular\<close>), written but not read (\<open>WriteOnly\<close>), or read but not
  written (\<open>ReadOnly\<close>); or it cannot be opened at all (\<open>Closed\<close>: a directory of that
  name, say). What is in a file decodes as JSON, or fails to (\<open>Garbage\<close>, a
  \<^verbatim>\<open>ValueError\<close>), or is nested too deeply for the decoder (\<open>TooDeep\<close>, a
  \<^verbatim>\<open>RecursionError\<close>). The
  network is the function \<^verbatim>\<open>fetch_orders\<close>: for a limit and an offset it returns the
  decoded response, or raises. What the page loop does to its surroundings is appended
  to a trace: the files it opens and writes, the calls to the network, the orders it
  yields and the pauses of one second. The lines printed by \<^verbatim>\<open>log\<close> are not part of
  the model.
\<close>

datatype file_content = Json json | Garbage | TooDeep

datatype file_state =
    Absent
  | Regular file_content
  | WriteOnly
  | ReadOnly file_content
  | Closed

datatype event =
    ReadFile string
  | NetFetch int int
  | WriteFile string
  | Yield json
  | Sleep

record world =
  files :: "string \<Rightarrow> file_state"
  trace :: "event list"

type_synonym network = "int \<Rightarrow> int \<Rightarrow> error + json"

definition emit :: "event list \<Rightarrow> world \<Rightarrow> world" where
  "emit es w = w\<lparr>trace := trace w @ es\<rparr>"

definition orders_filename :: "int \<Rightarrow> int \<Rightarrow> string" where
  "orders_filename limit offset =
     ''doordash-orders-limit-'' @ str_int limit @ ''-offset-'' @ str_int offset @ ''.json''"

text \<open>\<^verbatim>\<open>json.load(open(filename, "r"))\<close>, line 100.\<close>

fun decode :: "file_content \<Rightarrow> error + json" where
  "decode (Json data) = Inr data"
| "decode Garbage = Inl ValueError"
| "decode TooDeep = Inl RecursionError"

fun read_json :: "file_state \<Rightarrow> error + json" where
  "read_json (Regular c) = decode c"
| "read_json (ReadOnly c) = decode c"
| "read_json _ = Inl IOError"

text \<open>\<^verbatim>\<open>json.dump(data, open(filename, "w"))\<close>, line 104: the state of the file afterwards.\<close>

fun write_json :: "file_state \<Rightarrow> json \<Rightarrow> error + file_state" where
  "write_json Absent data = Inr (Regular (Json data))"
| "write_json (Regular c) data = Inr (Regular (Json data))"
| "write_json WriteOnly data = Inr WriteOnly"
| "write_json _ data = Inl IOError"

text \<open>
  \<^verbatim>\<open>fetch_orders_persisted\<close>: the file is opened and decoded. Only \<^verbatim>\<open>IOError\<close> and
  \<^verbatim>\<open>ValueError\<close> are caught; they send the call to the network, and the response is
  written to the file. Nothing else is caught: not another exception of the decoder, not
  an exception of \<^verbatim>\<open>fetch_orders\<close>, and not the \<^verbatim>\<open>IOError\<close> of opening the file for
  writing.
\<close>

definition fetch_orders_persisted ::
  "network \<Rightarrow> int \<Rightarrow> int \<Rightarrow> world \<Rightarrow> (error + json \<times> bool) \<times> world" where
  "fetch_orders_persisted fetch_orders limit offset w =
     (let filename = orders_filename limit offset;
          w0 = emit [ReadFile filename] w
      in case read_json (files w0 filename) of
        Inr data \<Rightarrow> (Inr (data, True), w0)
      | Inl e \<Rightarrow>
         if e = IOError \<or> e = ValueError then
           (let w1 = emit [NetFetch limit offset] w0 in
            case fetch_orders limit offset of
              Inl e' \<Rightarrow> (Inl e', w1)
            | Inr data \<Rightarrow>
               (let w2 = emit [WriteFile filename] w1 in
                case write_json (files w2 filename) data of
                  Inl e' \<Rightarrow> (Inl e', w2)
                | Inr st \<Rightarrow> (Inr (data, False), w2\<lparr>files := (files w2)(filename := st)\<rparr>)))
         else (Inl e, w0))"

section \<open>Checking the shape of a response\<close>

definition schema_changed_msg :: string where
  "schema_changed_msg =
     ''DoorDash changed their order history GraphQL query. '' @
     ''Capture the new query from doordash.com (look for GraphQL calls in DevTools Network tab) '' @
     ''and update ORDERS_QUERY to match.''"

definition missing_field_msg :: string where
  "missing_field_msg =
     ''DoorDash response did not include 'getConsumerOrdersWithDetails'. Update ORDERS_QUERY to match the current API.''"

definition unexpected_structure_msg :: "string list \<Rightarrow> string" where
  "unexpected_structure_msg ks =
     ''Unexpected API response structure. Expected 'data' key but got: '' @ py_repr (JArr (map JStr ks))"

definition api_error_msg :: "json \<Rightarrow> string" where
  "api_error_msg error_msg = ''GraphQL API error: '' @ py_str error_msg"

text \<open>
  Lines 120 to 152 of \<^verbatim>\<open>fetch_all_orders\<close>: the checks made on a decoded response before
  its orders are used. The result is \<^verbatim>\<open>orders_history\<close>, or the exception raised.
\<close>

definition check_response :: "json \<Rightarrow> error + json" where
  "check_response data =
     bnd (py_in ''errors'' data) (\<lambda>has_errors.
       if has_errors then
         bnd (py_getitem data ''errors'') (\<lambda>errs.
         bnd (if py_truthy errs
              then bnd (py_first errs) (\<lambda>e0. py_getitem e0 ''message'')
              else Inr (JStr ''Unknown error'')) (\<lambda>error_msg.
         bnd (py_in ''getConsumerOrdersWithDetails'' error_msg) (\<lambda>names_query.
         bnd (if names_query then Inr True else py_in ''ordersHistory'' error_msg) (\<lambda>drift.
           if drift then Inl (RuntimeError schema_changed_msg)
           else Inl (RuntimeError (api_error_msg error_msg))))))
       else
         bnd (py_in ''data'' data) (\<lambda>has_data.
           if \<not> has_data then
             bnd (py_keys data) (\<lambda>ks. Inl (RuntimeError (unexpected_structure_msg ks)))
           else
             bnd (py_getitem data ''data'') (\<lambda>d.
             bnd (py_get d ''getConsumerOrdersWithDetails'') (\<lambda>orders_history.
               if orders_history = JNull then Inl (RuntimeError missing_field_msg)
               else Inr orders_history))))"

section \<open>The page loop\<close>

datatype outcome = Finished | Raised error | Running

text \<open>
  \<^verbatim>\<open>fetch_all_orders\<close> is a generator around \<^verbatim>\<open>while True\<close>. One unit of fuel is one
  pass through the loop body; \<open>Running\<close> says the loop has not left by then. Each
  yielded order is a \<open>Yield\<close> event of the trace, in the order the consumer receives
  them; the page size is the constant 20.
\<close>

fun fetch_all_orders_loop :: "network \<Rightarrow> nat \<Rightarrow> int \<Rightarrow> world \<Rightarrow> outcome \<times> world" where
  "fetch_all_orders_loop fetch_orders 0 offset w = (Running, w)"
| "fetch_all_orders_loop fetch_orders (Suc fuel) offset w =
     (case fetch_orders_persisted fetch_orders 20 offset w of
        (Inl e, w1) \<Rightarrow> (Raised e, w1)
      | (Inr (data, was_persisted), w1) \<Rightarrow>
         (case check_response data of
            Inl e \<Rightarrow> (Raised e, w1)
          | Inr orders_history \<Rightarrow>
             if \<not> py_truthy orders_history then (Finished, w1)
             else
               (case py_iter orders_history of
                  Inl e \<Rightarrow> (Raised e, w1)
                | Inr orders \<Rightarrow>
                   (let w2 = emit (map Yield orders) w1;
                        w3 = (if was_persisted then w2 else emit [Sleep] w2)
                    in fetch_all_orders_loop fetch_orders fuel (offset + 20) w3))))"

definition fetch_all_orders :: "network \<Rightarrow> nat \<Rightarrow> world \<Rightarrow> outcome \<times> world" where
  "fetch_all_orders fetch_orders fuel w = fetch_all_orders_loop fetch_orders fuel 0 w"

section \<open>From orders to rows\<close>

text \<open>One row of the list \<^verbatim>\<open>rows\<close> built by \<^verbatim>\<open>execute\<close> (a dict with these six keys).\<close>

record row =
  row_order_id :: json
  row_date :: json
  row_store :: json
  row_person :: string
  row_item :: json
  row_options :: string

text \<open>Lines 202 to 208: the name of the person who placed a sub-order.\<close>

definition person_name_of :: "json \<Rightarrow> error + string" where
  "person_name_of sub_order =
     bnd (py_get sub_order ''creator'') (\<lambda>creator.
       if py_truthy creator then
         bnd (py_get creator ''firstName'') (\<lambda>given.
         bnd (py_get creator ''lastName'') (\<lambda>family.
           (let first_name = py_or given (JStr ''Unknown'');
                last_name = py_or family (JStr [])
            in Inr (strip (py_str first_name @ '' '' @ py_str last_name)))))
       else Inr ''Unknown'')"

text \<open>
  Lines 213 to 220: the two nested loops that append one pair to \<^verbatim>\<open>options\<close> for every
  option of every extra. The list built so far is passed along.
\<close>

fun extra_options_loop :: "json \<Rightarrow> json list \<Rightarrow> (json \<times> json) list \<Rightarrow> error + (json \<times> json) list" where
  "extra_options_loop extra_name [] options = Inr options"
| "extra_options_loop extra_name (extra_option # rest) options =
     bnd (py_getitem extra_option ''name'') (\<lambda>option_name.
       extra_options_loop extra_name rest (options @ [(extra_name, option_name)]))"

fun extras_loop :: "json list \<Rightarrow> (json \<times> json) list \<Rightarrow> error + (json \<times> json) list" where
  "extras_loop [] options = Inr options"
| "extras_loop (extra # rest) options =
     bnd (py_getitem extra ''name'') (\<lambda>extra_name.
     bnd (py_get_default extra ''orderItemExtraOptions'' (JArr [])) (\<lambda>extra_options.
     bnd (py_iter extra_options) (\<lambda>extra_option_list.
     bnd (extra_options_loop extra_name extra_option_list options) (\<lambda>options'.
       extras_loop rest options'))))"

definition item_options :: "json \<Rightarrow> error + (json \<times> json) list" where
  "item_options item =
     bnd (py_get_default item ''orderItemExtras'' (JArr [])) (\<lambda>extras.
     bnd (py_iter extras) (\<lambda>extra_list. extras_loop extra_list []))"

text \<open>Lines 222 and 223.\<close>

definition options_string_of :: "(json \<times> json) list \<Rightarrow> string" where
  "options_string_of options =
     join '', '' (map (\<lambda>(name, val). py_str name @ '': '' @ py_str val) options)"

text \<open>Lines 211 to 233: one row is appended for every item of a sub-order.\<close>

fun items_loop :: "json \<Rightarrow> json \<Rightarrow> json \<Rightarrow> string \<Rightarrow> json list \<Rightarrow> row list \<Rightarrow> error + row list" where
  "items_loop order_id delivery_time store_name person_name [] rows = Inr rows"
| "items_loop order_id delivery_time store_name person_name (item # rest) rows =
     bnd (py_getitem item ''name'') (\<lambda>item_name.
     bnd (item_options item) (\<lambda>options.
       items_loop order_id delivery_time store_name person_name rest
         (rows @ [\<lparr>row_order_id = order_id, row_date = delivery_time, row_store = store_name,
                   row_person = person_name, row_item = item_name,
                   row_options = options_string_of options\<rparr>])))"

text \<open>Lines 201 to 233: the loop over the sub-orders of one order.\<close>

fun sub_orders_loop :: "json \<Rightarrow> json \<Rightarrow> json \<Rightarrow> json list \<Rightarrow> row list \<Rightarrow> error + row list" where
  "sub_orders_loop order_id delivery_time store_name [] rows = Inr rows"
| "sub_orders_loop order_id delivery_time store_name (sub_order # rest) rows =
     bnd (person_name_of sub_order) (\<lambda>person_name.
     bnd (py_getitem sub_order ''items'') (\<lambda>items.
     bnd (py_iter items) (\<lambda>item_list.
     bnd (items_loop order_id delivery_time store_name person_name item_list rows) (\<lambda>rows'.
       sub_orders_loop order_id delivery_time store_name rest rows'))))"

text \<open>Line 190: \<^verbatim>\<open>order_cart["orderUuid"] or order_cart["id"]\<close>.\<close>

definition resolve_order_id :: "json \<Rightarrow> error + json" where
  "resolve_order_id order_cart =
     bnd (py_getitem order_cart ''orderUuid'') (\<lambda>order_uuid.
       if py_truthy order_uuid then Inr order_uuid else py_getitem order_cart ''id'')"

text \<open>Lines 189 and 193 to 195 (the warning is only logged).\<close>

definition resolve_delivery_time :: "json \<Rightarrow> error + json" where
  "resolve_delivery_time order_cart =
     bnd (py_get order_cart ''submittedAt'') (\<lambda>submitted_at.
     bnd (if py_truthy submitted_at then Inr submitted_at else py_get order_cart ''createdAt'')
       (\<lambda>delivery_time.
         if \<not> py_truthy delivery_time then Inr (JStr ''1900-01-01T00:00:00Z'')
         else Inr delivery_time))"

text \<open>Lines 188 to 233: the body of the loop of \<^verbatim>\<open>execute\<close> for one order.\<close>

definition process_order :: "json \<Rightarrow> row list \<Rightarrow> error + row list" where
  "process_order order_cart rows =
     bnd (py_getitem order_cart ''store'') (\<lambda>store.
     bnd (py_getitem store ''name'') (\<lambda>store_name.
     bnd (resolve_delivery_time order_cart) (\<lambda>delivery_time.
     bnd (resolve_order_id order_cart) (\<lambda>order_id.
     bnd (py_getitem order_cart ''orders'') (\<lambda>orders.
     bnd (py_iter orders) (\<lambda>sub_orders.
       sub_orders_loop order_id delivery_time store_name sub_orders rows))))))"

fun orders_loop :: "json list \<Rightarrow> row list \<Rightarrow> error + row list" where
  "orders_loop [] rows = Inr rows"
| "orders_loop (order_cart # rest) rows =
     bnd (process_order order_cart rows) (\<lambda>rows'. orders_loop rest rows')"

section \<open>The two tables\<close>

text \<open>
  A table is the list of the rows handed to \<^verbatim>\<open>csv.writer\<close>, each a list of cells. A dict
  that the code fills key by key is a list of items in insertion order: an assignment
  to a key already present replaces its value in place, to a new key adds an item at
  the end.
\<close>

type_synonym table = "json list list"

fun dict_set :: "('k \<times> 'v) list \<Rightarrow> 'k \<Rightarrow> 'v \<Rightarrow> ('k \<times> 'v) list" where
  "dict_set [] k v = [(k, v)]"
| "dict_set ((k', v') # d) k v = (if k' = k then (k, v) # d else (k', v') # dict_set d k v)"

text \<open>\<^verbatim>\<open>x[:10]\<close>: a string or a list can be sliced.\<close>

fun py_slice10 :: "json \<Rightarrow> error + json" where
  "py_slice10 (JStr s) = Inr (JStr (take 10 s))"
| "py_slice10 (JArr xs) = Inr (JArr (take 10 xs))"
| "py_slice10 _ = Inl TypeError"

text \<open>Lines 243 to 252.\<close>

fun itemized_rows :: "row list \<Rightarrow> error + table" where
  "itemized_rows [] = Inr []"
| "itemized_rows (r # rest) =
     bnd (py_slice10 (row_date r)) (\<lambda>d.
     bnd (itemized_rows rest) (\<lambda>t.
       Inr ([d, row_store r, JStr (row_person r), row_item r, JStr (row_options r)] # t)))"

definition itemized_table :: "row list \<Rightarrow> error + table" where
  "itemized_table rows =
     bnd (itemized_rows rows) (\<lambda>t.
       Inr (map JStr [''Date'', ''Store'', ''Person'', ''Item'', ''Options''] # t))"

text \<open>
  Keys of \<^verbatim>\<open>by_order_id\<close>: a list or a dict cannot be hashed, and Python's dict takes
  \<^verbatim>\<open>True\<close> and \<^verbatim>\<open>1\<close> (and \<^verbatim>\<open>False\<close> and \<^verbatim>\<open>0\<close>) for the same key.
\<close>

fun py_hashable :: "json \<Rightarrow> bool" where
  "py_hashable (JArr xs) = False"
| "py_hashable (JObj kvs) = False"
| "py_hashable _ = True"

fun dict_key :: "json \<Rightarrow> json" where
  "dict_key (JBool b) = JNum (if b then 1 else 0)"
| "dict_key x = x"

definition pivot_cell :: "row \<Rightarrow> json" where
  "pivot_cell r = JStr (py_str (row_item r) @ ''. '' @ row_options r)"

text \<open>Lines 257 to 262.\<close>

fun by_order_id_loop ::
  "row list \<Rightarrow> (json \<times> (string \<times> json) list) list \<Rightarrow> error + (json \<times> (string \<times> json) list) list" where
  "by_order_id_loop [] by_order_id = Inr by_order_id"
| "by_order_id_loop (r # rest) by_order_id =
     (if \<not> py_hashable (row_order_id r) then Inl TypeError
      else
        (let k = dict_key (row_order_id r);
             order = (case map_of by_order_id k of None \<Rightarrow> [] | Some d \<Rightarrow> d);
             order1 = dict_set order ''date'' (row_date r);
             order2 = dict_set order1 ''store'' (row_store r);
             order3 = dict_set order2 (row_person r) (pivot_cell r)
         in by_order_id_loop rest (dict_set by_order_id k order3)))"

text \<open>Lines 263 to 265: the \<^verbatim>\<open>Counter\<close>, a dict from person to count.\<close>

fun person_counter_loop :: "row list \<Rightarrow> (string \<times> nat) list \<Rightarrow> (string \<times> nat) list" where
  "person_counter_loop [] person_counter = person_counter"
| "person_counter_loop (r # rest) person_counter =
     person_counter_loop rest
       (dict_set person_counter (row_person r)
          ((case map_of person_counter (row_person r) of None \<Rightarrow> 0 | Some n \<Rightarrow> n) + 1))"

text \<open>
  \<^verbatim>\<open>Counter.most_common()\<close> is \<^verbatim>\<open>sorted(items, key=count, reverse=True)\<close>: a stable
  sort, in which \<^verbatim>\<open>reverse=True\<close> keeps items of equal count in their original order.
  That is the stable sort by the negated count.
\<close>

definition most_common :: "(string \<times> nat) list \<Rightarrow> (string \<times> nat) list" where
  "most_common person_counter = sort_key (\<lambda>kv. - int (snd kv)) person_counter"

definition people_of :: "row list \<Rightarrow> string list" where
  "people_of rows = map fst (most_common (person_counter_loop rows []))"

text \<open>Lines 270 to 272: one row of the pivot table.\<close>

definition people_values :: "string list \<Rightarrow> (string \<times> json) list \<Rightarrow> json list" where
  "people_values people order =
     map (\<lambda>person. case map_of order person of None \<Rightarrow> JStr [] | Some v \<Rightarrow> v) people"

fun pivot_rows :: "string list \<Rightarrow> (string \<times> json) list list \<Rightarrow> error + table" where
  "pivot_rows people [] = Inr []"
| "pivot_rows people (order # rest) =
     bnd (case map_of order ''date'' of None \<Rightarrow> Inl KeyError | Some d \<Rightarrow> py_slice10 d) (\<lambda>d.
     bnd (case map_of order ''store'' of None \<Rightarrow> Inl KeyError | Some s \<Rightarrow> Inr s) (\<lambda>s.
     bnd (pivot_rows people rest) (\<lambda>t.
       Inr (([d, s] @ people_values people order) # t))))"

definition pivot_table :: "row list \<Rightarrow> error + table" where
  "pivot_table rows =
     bnd (by_order_id_loop rows []) (\<lambda>by_order_id.
       (let people = people_of rows in
        bnd (pivot_rows people (map snd by_order_id)) (\<lambda>t.
          Inr ((map JStr ([''Date'', ''Store''] @ people)) # t))))"

section \<open>The whole run\<close>

text \<open>
  \<^verbatim>\<open>execute\<close> consumes the generator order by order, so an exception raised while an
  order is turned into rows comes before anything the generator does after yielding
  that order. When the generator has come to its end, the itemized table is written
  first, then the pivot table; the result holds both tables when both were written, and
  the exception otherwise. The pause of a tenth of a second after each order is left
  out.
\<close>

datatype run = Exported table table | Failed error | Unfinished

definition yielded :: "event list \<Rightarrow> json list" where
  "yielded es = concat (map (\<lambda>e. case e of Yield order \<Rightarrow> [order] | _ \<Rightarrow> []) es)"

definition execute :: "network \<Rightarrow> nat \<Rightarrow> world \<Rightarrow> run" where
  "execute fetch_orders fuel w =
     (case fetch_all_orders fetch_orders fuel w of
        (out, w') \<Rightarrow>
          (case orders_loop (yielded (drop (length (trace w)) (trace w'))) [] of
             Inl e \<Rightarrow> Failed e
           | Inr rows \<Rightarrow>
              (case out of
                 Running \<Rightarrow> Unfinished
               | Raised e \<Rightarrow> Failed e
               | Finished \<Rightarrow>
                  (case itemized_table rows of
                     Inl e \<Rightarrow> Failed e
                   | Inr ledger \<Rightarrow>
                      (case pivot_table rows of
                         Inl e \<Rightarrow> Failed e
                       | Inr pivot \<Rightarrow> Exported ledger pivot)))))"

section \<open>The shape of an order, as the rows see it\<close>

text \<open>
  The properties of the rows are stated over what the code reads from an order: an
  option shows a name; an extra shows a name and a sequence of options; an item shows a
  name and a sequence of extras; a sub-order shows a person and a sequence of items.
  \<open>flat_row\<close> is the row that one item gives, \<open>options_summary\<close> the text of its
  options: every pair of extra name and option name, in the order of the source,
  written \<^verbatim>\<open>extraName: optionName\<close> and joined with a comma and a space.
\<close>

definition option_view :: "json \<Rightarrow> json \<Rightarrow> bool" where
  "option_view extra_option option_name \<longleftrightarrow> py_getitem extra_option ''name'' = Inr option_name"

definition extra_view :: "json \<Rightarrow> json \<times> json list \<Rightarrow> bool" where
  "extra_view extra e \<longleftrightarrow>
     py_getitem extra ''name'' = Inr (fst e) \<and>
     (case bnd (py_get_default extra ''orderItemExtraOptions'' (JArr [])) py_iter of
        Inr extra_options \<Rightarrow> list_all2 option_view extra_options (snd e)
      | Inl err \<Rightarrow> False)"

definition item_view :: "json \<Rightarrow> json \<times> (json \<times> json list) list \<Rightarrow> bool" where
  "item_view item i \<longleftrightarrow>
     py_getitem item ''name'' = Inr (fst i) \<and>
     (case bnd (py_get_default item ''orderItemExtras'' (JArr [])) py_iter of
        Inr extras \<Rightarrow> list_all2 extra_view extras (snd i)
      | Inl err \<Rightarrow> False)"

definition option_pairs :: "(json \<times> json list) list \<Rightarrow> (json \<times> json) list" where
  "option_pairs extras = concat (map (\<lambda>e. map (\<lambda>option_name. (fst e, option_name)) (snd e)) extras)"

definition options_summary :: "(json \<times> json list) list \<Rightarrow> string" where
  "options_summary extras =
     join '', '' (map (\<lambda>p. py_str (fst p) @ '': '' @ py_str (snd p)) (option_pairs extras))"

definition flat_row :: "json \<Rightarrow> json \<Rightarrow> json \<Rightarrow> string \<Rightarrow> json \<times> (json \<times> json list) list \<Rightarrow> row" where
  "flat_row order_id delivery_time store_name person_name i =
     \<lparr>row_order_id = order_id, row_date = delivery_time, row_store = store_name,
      row_person = person_name, row_item = fst i, row_options = options_summary (snd i)\<rparr>"

definition sub_order_view :: "json \<Rightarrow> string \<times> (json \<times> (json \<times> json list) list) list \<Rightarrow> bool" where
  "sub_order_view sub_order s \<longleftrightarrow>
     person_name_of sub_order = Inr (fst s) \<and>
     (case bnd (py_getitem sub_order ''items'') py_iter of
        Inr items \<Rightarrow> list_all2 item_view items (snd s)
      | Inl err \<Rightarrow> False)"

definition flat_rows ::
  "json \<Rightarrow> json \<Rightarrow> json \<Rightarrow> (string \<times> (json \<times> (json \<times> json list) list) list) list \<Rightarrow> row list" where
  "flat_rows order_id delivery_time store_name subs =
     concat (map (\<lambda>s. map (flat_row order_id delivery_time store_name (fst s)) (snd s)) subs)"

text \<open>
  What the code takes a name field for (\<^verbatim>\<open>creator.get(key) or default\<close>): the default
  when the key is absent or its value is empty.
\<close>

definition absent_or_empty :: "json option \<Rightarrow> bool" where
  "absent_or_empty v = (case v of None \<Rightarrow> True | Some j \<Rightarrow> \<not> py_truthy j)"

definition name_or :: "string \<Rightarrow> json option \<Rightarrow> string" where
  "name_or d v = (case v of None \<Rightarrow> d | Some j \<Rightarrow> if py_truthy j then py_str j else d)"

text \<open>
  The person name as the specification words it, to be compared with
  \<open>person_name_of\<close>: the first and the last name with a space between them, trimmed,
  a missing name counting as empty; \<^verbatim>\<open>Unknown\<close> exactly when there is no creator record
  or both names are missing. The argument is the creator record.
\<close>

definition spec_name_field :: "(string \<times> json) list \<Rightarrow> string \<Rightarrow> string option" where
  "spec_name_field kvs k = (case map_of kvs k of Some (JStr s) \<Rightarrow> Some s | _ \<Rightarrow> None)"

definition spec_person_name :: "json \<Rightarrow> string" where
  "spec_person_name creator =
     (case creator of
        JObj kvs \<Rightarrow>
          (case (spec_name_field kvs ''firstName'', spec_name_field kvs ''lastName'') of
             (None, None) \<Rightarrow> ''Unknown''
           | (given, family) \<Rightarrow>
               strip ((case given of None \<Rightarrow> [] | Some s \<Rightarrow> s) @ '' '' @
                      (case family of None \<Rightarrow> [] | Some s \<Rightarrow> s)))
      | _ \<Rightarrow> ''Unknown'')"

section \<open>What the pivot table is measured against\<close>

text \<open>
  \<open>first_seen\<close> lists the distinct elements of a sequence in the order of their first
  appearance; \<open>item_count\<close> is the number of rows of a person over the whole run;
  \<open>order_key\<close> is the key under which a row is grouped; \<open>last_row_of\<close> is the last row
  of a person within an order, if there is one; \<open>dict_of\<close> reads \<^verbatim>\<open>by_order_id\<close> as the
  \<^verbatim>\<open>defaultdict\<close> it is.
\<close>

fun first_seen :: "'a list \<Rightarrow> 'a list" where
  "first_seen [] = []"
| "first_seen (x # xs) = x # filter (\<lambda>y. y \<noteq> x) (first_seen xs)"


definition order_key :: "row \<Rightarrow> json" where
  "order_key r = dict_key (row_order_id r)"

definition last_row_of :: "row list \<Rightarrow> json \<Rightarrow> string \<Rightarrow> row option" where
  "last_row_of rows k p =
     (case filter (\<lambda>r. order_key r = k \<and> row_person r = p) rows of
        [] \<Rightarrow> None
      | r # rs \<Rightarrow> Some (last (r # rs)))"

definition dict_of :: "('k \<times> ('p \<times> 'v) list) list \<Rightarrow> 'k \<Rightarrow> ('p \<times> 'v) list" where
  "dict_of b k = (case map_of b k of None \<Rightarrow> [] | Some d \<Rightarrow> d)"

text \<open>
  The order of the specification's example: Amy orders a taco without extras, Bo a
  burrito with the extra \<^verbatim>\<open>Protein\<close> and its option \<^verbatim>\<open>Steak\<close>; and three rows to try
  the tables on.
\<close>

definition example_order :: json where
  "example_order =
     JObj [(''id'', JStr ''77''), (''orderUuid'', JStr ''u-1''),
           (''createdAt'', JStr ''2023-05-01T12:00:00Z''), (''submittedAt'', JNull),
           (''store'', JObj [(''id'', JStr ''5''), (''name'', JStr ''Cantina'')]),
           (''orders'', JArr [
              JObj [(''creator'', JObj [(''firstName'', JStr ''Amy''), (''lastName'', JNull)]),
                    (''items'', JArr [JObj [(''name'', JStr ''Taco''), (''orderItemExtras'', JArr [])]])],
              JObj [(''creator'', JObj [(''firstName'', JStr ''Bo''), (''lastName'', JNull)]),
                    (''items'', JArr [JObj [(''name'', JStr ''Burrito''),
                       (''orderItemExtras'', JArr [JObj [(''name'', JStr ''Protein''),
                          (''orderItemExtraOptions'', JArr [JObj [(''name'', JStr ''Steak'')]])]])]])]])]"

definition amy_taco :: row where
  "amy_taco = \<lparr>row_order_id = JStr ''u-1'', row_date = JStr ''2023-05-01T12:00:00Z'',
     row_store = JStr ''Cantina'', row_person = ''Amy'', row_item = JStr ''Taco'', row_options = []\<rparr>"

definition bo_burrito :: row where
  "bo_burrito = \<lparr>row_order_id = JStr ''u-1'', row_date = JStr ''2023-05-01T12:00:00Z'',
     row_store = JStr ''Cantina'', row_person = ''Bo'', row_item = JStr ''Burrito'',
     row_options = ''Protein: Steak''\<rparr>"

definition bo_chips :: row where
  "bo_chips = \<lparr>row_order_id = JStr ''u-2'', row_date = JStr ''2023-05-02T12:00:00Z'',
     row_store = JStr ''Cantina'', row_person = ''Bo'', row_item = JStr ''Chips'', row_options = []\<rparr>"


section \<open>The pages a run sees\<close>

text \<open>
  The loop asks for the offsets 0, 20, 40, ... The payload of the \<open>k\<close>-th page is read
  off the directory and the network as they are before the run: it is the record stored
  for that offset when the record decodes, and the answer of the network when there is
  no record that can be read and decoded and the file can be written. A payload is a
  valid page when it is an object without \<^verbatim>\<open>errors\<close> whose \<^verbatim>\<open>data\<close> is an object in
  which \<^verbatim>\<open>getConsumerOrdersWithDetails\<close> is an array: \<open>page_summaries\<close> is that array,
  the order summaries of the page as they were received. \<open>page_events\<close> is what the
  consumer of the generator can see of one page: the page is read, then its orders
  arrive one by one.
\<close>

definition page_offset :: "nat \<Rightarrow> int" where
  "page_offset k = 20 * int k"

definition page_summaries :: "json \<Rightarrow> json list option" where
  "page_summaries payload =
     (case payload of
        JObj kvs \<Rightarrow>
          (case map_of kvs ''errors'' of
             Some errs \<Rightarrow> None
           | None \<Rightarrow>
              (case map_of kvs ''data'' of
                 Some (JObj dkvs) \<Rightarrow>
                   (case map_of dkvs ''getConsumerOrdersWithDetails'' of
                      Some (JArr orders) \<Rightarrow> Some orders
                    | _ \<Rightarrow> None)
               | _ \<Rightarrow> None))
      | _ \<Rightarrow> None)"

definition network_payload :: "network \<Rightarrow> nat \<Rightarrow> json option" where
  "network_payload fetch_orders k =
     (case fetch_orders 20 (page_offset k) of Inl e \<Rightarrow> None | Inr payload \<Rightarrow> Some payload)"

definition page_payload :: "network \<Rightarrow> world \<Rightarrow> nat \<Rightarrow> json option" where
  "page_payload fetch_orders w k =
     (case files w (orders_filename 20 (page_offset k)) of
        Regular (Json payload) \<Rightarrow> Some payload
      | ReadOnly (Json payload) \<Rightarrow> Some payload
      | Absent \<Rightarrow> network_payload fetch_orders k
      | Regular Garbage \<Rightarrow> network_payload fetch_orders k
      | WriteOnly \<Rightarrow> network_payload fetch_orders k
      | _ \<Rightarrow> None)"

definition orders_of :: "network \<Rightarrow> world \<Rightarrow> nat \<Rightarrow> json list option" where
  "orders_of fetch_orders w k =
     (case page_payload fetch_orders w k of None \<Rightarrow> None | Some payload \<Rightarrow> page_summaries payload)"

definition page_events :: "network \<Rightarrow> world \<Rightarrow> nat \<Rightarrow> event list" where
  "page_events fetch_orders w k =
     ReadFile (orders_filename 20 (page_offset k)) #
     map Yield (case orders_of fetch_orders w k of Some orders \<Rightarrow> orders | None \<Rightarrow> [])"

fun is_read_or_yield :: "event \<Rightarrow> bool" where
  "is_read_or_yield (ReadFile name) = True"
| "is_read_or_yield (Yield order) = True"
| "is_read_or_yield _ = False"

definition reads_and_yields :: "world \<Rightarrow> event list" where
  "reads_and_yields w = filter is_read_or_yield (trace w)"

definition page_of :: "json list \<Rightarrow> json" where
  "page_of orders = JObj [(''data'', JObj [(''getConsumerOrdersWithDetails'', JArr orders)])]"

section \<open>Sequencing\<close>

lemma bnd_Inl [simp]: "bnd (Inl e) f = Inl e"
  by (simp add: bnd_def)

lemma bnd_Inr [simp]: "bnd (Inr v) f = f v"
  by (simp add: bnd_def)

lemma bnd_eq_Inr: "bnd m f = Inr r \<longleftrightarrow> (\<exists>v. m = Inr v \<and> f v = Inr r)"
  by (cases m) simp_all

section \<open>Properties of the response check\<close>

lemma loop_raises:
  assumes "fst (fetch_orders_persisted fetch_orders 20 offset w) = Inr (data, was_persisted)"
    and "check_response data = Inl e"
  shows "fst (fetch_all_orders_loop fetch_orders (Suc fuel) offset w) = Raised e"
  using assms by (cases "fetch_orders_persisted fetch_orders 20 offset w") simp

lemma check_response_errors:
  assumes "map_of kvs ''errors'' = Some (JArr (e # es))"
    and "py_getitem e ''message'' = Inr (JStr m)"
  shows "check_response (JObj kvs) =
      (if is_substring ''getConsumerOrdersWithDetails'' m \<or> is_substring ''ordersHistory'' m
       then Inl (RuntimeError schema_changed_msg)
       else Inl (RuntimeError (''GraphQL API error: '' @ m)))"
  using assms by (simp add: check_response_def api_error_msg_def)

lemma check_response_empty_errors:
  assumes "map_of kvs ''errors'' = Some (JArr [])"
  shows "check_response (JObj kvs) = Inl (RuntimeError ''GraphQL API error: Unknown error'')"
  using assms by (simp add: check_response_def api_error_msg_def)

lemma check_response_no_data:
  assumes "map_of kvs ''errors'' = None" and "map_of kvs ''data'' = None"
  shows "check_response (JObj kvs) = Inl (RuntimeError (unexpected_structure_msg (map fst kvs)))"
  using assms by (simp add: check_response_def)

lemma check_response_data:
  assumes "map_of kvs ''errors'' = None" and "map_of kvs ''data'' = Some (JObj dkvs)"
  shows "check_response (JObj kvs) =
     (case map_of dkvs ''getConsumerOrdersWithDetails'' of
        None \<Rightarrow> Inl (RuntimeError missing_field_msg)
      | Some v \<Rightarrow> if v = JNull then Inl (RuntimeError missing_field_msg) else Inr v)"
  using assms by (simp add: check_response_def py_get_def split: option.splits)

text \<open>
  A \<^verbatim>\<open>data\<close> entry that is not a dict (\<^verbatim>\<open>null\<close>, say) is not caught by the checks: the
  \<^verbatim>\<open>.get\<close> call on it raises \<^verbatim>\<open>AttributeError\<close>.
\<close>

lemma check_response_data_not_dict:
  assumes "map_of kvs ''errors'' = None" and "map_of kvs ''data'' = Some d"
    and "\<forall>dkvs. d \<noteq> JObj dkvs"
  shows "check_response (JObj kvs) = Inl AttributeError"
  using assms by (cases d) (simp_all add: check_response_def py_get_def)

lemma schema_changed_msg_names_query: "is_substring ''ORDERS_QUERY'' schema_changed_msg"
  by (simp add: schema_changed_msg_def)

lemma missing_field_msg_names_query: "is_substring ''ORDERS_QUERY'' missing_field_msg"
  by (simp add: missing_field_msg_def)

text \<open>
  Claim C2. When the decoded page is a dict whose \<^verbatim>\<open>errors\<close> entry is a non-empty
  array and the first error carries a string message, the page loop leaves with a
  \<^verbatim>\<open>RuntimeError\<close>: the schema-change message, which names \<^verbatim>\<open>ORDERS_QUERY\<close> as the
  query to update, if the message contains \<^verbatim>\<open>getConsumerOrdersWithDetails\<close> or
  \<^verbatim>\<open>ordersHistory\<close>; otherwise the generic message \<^verbatim>\<open>GraphQL API error: \<close> followed by
  the first error's message. The two are never the same exception, and the response
  with the single error \<^verbatim>\<open>Cannot query field getConsumerOrdersWithDetails\<close> gets the
  schema-change one.
\<close>

theorem errors_array_classified:
  assumes "map_of kvs ''errors'' = Some (JArr (e # es))"
    and "py_getitem e ''message'' = Inr (JStr m)"
    and "fst (fetch_orders_persisted fetch_orders 20 offset w) = Inr (JObj kvs, was_persisted)"
  shows "fst (fetch_all_orders_loop fetch_orders (Suc fuel) offset w) =
      (if is_substring ''getConsumerOrdersWithDetails'' m \<or> is_substring ''ordersHistory'' m
       then Raised (RuntimeError schema_changed_msg)
       else Raised (RuntimeError (''GraphQL API error: '' @ m)))
    \<and> RuntimeError schema_changed_msg \<noteq> RuntimeError (''GraphQL API error: '' @ m)
    \<and> is_substring ''ORDERS_QUERY'' schema_changed_msg
    \<and> check_response (JObj [(''errors'', JArr [JObj [(''message'',
          JStr ''Cannot query field getConsumerOrdersWithDetails'')]])])
        = Inl (RuntimeError schema_changed_msg)"
proof -
  have "check_response (JObj kvs) =
      (if is_substring ''getConsumerOrdersWithDetails'' m \<or> is_substring ''ordersHistory'' m
       then Inl (RuntimeError schema_changed_msg)
       else Inl (RuntimeError (''GraphQL API error: '' @ m)))"
    using assms(1,2) by (rule check_response_errors)
  then have "fst (fetch_all_orders_loop fetch_orders (Suc fuel) offset w) =
      (if is_substring ''getConsumerOrdersWithDetails'' m \<or> is_substring ''ordersHistory'' m
       then Raised (RuntimeError schema_changed_msg)
       else Raised (RuntimeError (''GraphQL API error: '' @ m)))"
    using loop_raises [OF assms(3), of "RuntimeError schema_changed_msg" fuel]
      loop_raises [OF assms(3), of "RuntimeError (''GraphQL API error: '' @ m)" fuel]
    by (simp del: fetch_all_orders_loop.simps split: if_splits)
  moreover have "RuntimeError schema_changed_msg \<noteq> RuntimeError (''GraphQL API error: '' @ m)"
    by (simp add: schema_changed_msg_def)
  moreover have "check_response (JObj [(''errors'', JArr [JObj [(''message'',
          JStr ''Cannot query field getConsumerOrdersWithDetails'')]])])
        = Inl (RuntimeError schema_changed_msg)"
    by (simp add: check_response_def)
  ultimately show ?thesis
    using schema_changed_msg_names_query by simp
qed

theorem errors_array_classified_witness:
  "fst (fetch_all_orders (\<lambda>limit offset. Inr (JObj [(''errors'', JArr [JObj [(''message'', JStr ''rate limited'')]])]))
         1 \<lparr>files = (\<lambda>name. Absent), trace = []\<rparr>)
     = Raised (RuntimeError ''GraphQL API error: rate limited'')"
proof -
  let ?kvs = "[(''errors'', JArr [JObj [(''message'', JStr ''rate limited'')]])]"
  let ?f = "\<lambda>limit offset. Inr (JObj ?kvs) :: error + json"
  let ?w = "\<lparr>files = (\<lambda>name. Absent), trace = []\<rparr>"
  have h1: "map_of ?kvs ''errors'' = Some (JArr (JObj [(''message'', JStr ''rate limited'')] # []))"
    by simp
  have h2: "py_getitem (JObj [(''message'', JStr ''rate limited'')]) ''message'' = Inr (JStr ''rate limited'')"
    by simp
  have h3: "fst (fetch_orders_persisted ?f 20 0 ?w) = Inr (JObj ?kvs, False)"
    by (simp add: fetch_orders_persisted_def emit_def Let_def)
  show ?thesis
    using errors_array_classified [OF h1 h2 h3, of 0]
    by (simp add: fetch_all_orders_def del: fetch_all_orders_loop.simps)
qed

text \<open>
  What the checks do classify. For a decoded page that is a dict without an \<^verbatim>\<open>errors\<close>
  key: when it has no \<^verbatim>\<open>data\<close> key either, the page loop leaves with the
  \<^verbatim>\<open>RuntimeError\<close> that reports the unexpected structure and lists the keys received;
  when \<^verbatim>\<open>data\<close> is a dict in which \<^verbatim>\<open>getConsumerOrdersWithDetails\<close> is absent or
  \<^verbatim>\<open>null\<close>, it leaves with the \<^verbatim>\<open>RuntimeError\<close> that reports the missing field and
  names \<^verbatim>\<open>ORDERS_QUERY\<close>. The two exceptions differ from each other and neither is a
  \<^verbatim>\<open>KeyError\<close>. (The first response is \<open>kvs\<close>, the second \<open>kvs'\<close>.)
\<close>

lemma classified_when_data_is_a_dict:
  assumes "map_of kvs ''errors'' = None"
    and "map_of kvs ''data'' = None"
    and "fst (fetch_orders_persisted fetch_orders 20 offset w) = Inr (JObj kvs, was_persisted)"
    and "map_of kvs' ''errors'' = None"
    and "map_of kvs' ''data'' = Some (JObj dkvs)"
    and "map_of dkvs ''getConsumerOrdersWithDetails'' \<in> {None, Some JNull}"
    and "fst (fetch_orders_persisted fetch_orders' 20 offset' w') = Inr (JObj kvs', was_persisted')"
  shows "fst (fetch_all_orders_loop fetch_orders (Suc fuel) offset w) =
           Raised (RuntimeError (unexpected_structure_msg (map fst kvs)))
    \<and> fst (fetch_all_orders_loop fetch_orders' (Suc fuel') offset' w') =
           Raised (RuntimeError missing_field_msg)
    \<and> is_substring ''ORDERS_QUERY'' missing_field_msg
    \<and> RuntimeError (unexpected_structure_msg (map fst kvs)) \<noteq> RuntimeError missing_field_msg
    \<and> RuntimeError (unexpected_structure_msg (map fst kvs)) \<noteq> KeyError
    \<and> RuntimeError missing_field_msg \<noteq> KeyError"
proof -
  have "check_response (JObj kvs) = Inl (RuntimeError (unexpected_structure_msg (map fst kvs)))"
    using assms(1,2) by (rule check_response_no_data)
  with assms(3) have a: "fst (fetch_all_orders_loop fetch_orders (Suc fuel) offset w) =
           Raised (RuntimeError (unexpected_structure_msg (map fst kvs)))"
    by (rule loop_raises)
  have "check_response (JObj kvs') = Inl (RuntimeError missing_field_msg)"
    using assms(6) by (auto simp: check_response_data [OF assms(4,5)])
  with assms(7) have b: "fst (fetch_all_orders_loop fetch_orders' (Suc fuel') offset' w') =
           Raised (RuntimeError missing_field_msg)"
    by (rule loop_raises)
  have c: "unexpected_structure_msg (map fst kvs) \<noteq> missing_field_msg"
    by (simp add: unexpected_structure_msg_def missing_field_msg_def)
  show ?thesis
    using a b c missing_field_msg_names_query by simp
qed

lemma classified_when_data_is_a_dict_example:
  "fst (fetch_all_orders (\<lambda>limit offset. Inr (JObj [(''status'', JStr ''ok'')])) 1
          \<lparr>files = (\<lambda>name. Absent), trace = []\<rparr>)
     = Raised (RuntimeError ''Unexpected API response structure. Expected 'data' key but got: ['status']'')
   \<and> fst (fetch_all_orders (\<lambda>limit offset. Inr (JObj [(''data'', JObj [(''getConsumerOrdersWithDetails'', JNull)])])) 1
          \<lparr>files = (\<lambda>name. Absent), trace = []\<rparr>)
     = Raised (RuntimeError missing_field_msg)"
proof -
  let ?kvs = "[(''status'', JStr ''ok'')]"
  let ?dkvs = "[(''getConsumerOrdersWithDetails'', JNull)]"
  let ?kvs' = "[(''data'', JObj ?dkvs)]"
  let ?f = "\<lambda>limit offset. Inr (JObj ?kvs) :: error + json"
  let ?f' = "\<lambda>limit offset. Inr (JObj ?kvs') :: error + json"
  let ?w = "\<lparr>files = (\<lambda>name. Absent), trace = []\<rparr>"
  have h1: "map_of ?kvs ''errors'' = None" by simp
  have h2: "map_of ?kvs ''data'' = None" by simp
  have h3: "fst (fetch_orders_persisted ?f 20 0 ?w) = Inr (JObj ?kvs, False)"
    by (simp add: fetch_orders_persisted_def emit_def Let_def)
  have h4: "map_of ?kvs' ''errors'' = None" by simp
  have h5: "map_of ?kvs' ''data'' = Some (JObj ?dkvs)" by simp
  have h6: "map_of ?dkvs ''getConsumerOrdersWithDetails'' \<in> {None, Some JNull}" by simp
  have h7: "fst (fetch_orders_persisted ?f' 20 0 ?w) = Inr (JObj ?kvs', False)"
    by (simp add: fetch_orders_persisted_def emit_def Let_def)
  show ?thesis
    using classified_when_data_is_a_dict [OF h1 h2 h3 h4 h5 h6 h7, of 0 0]
    by (simp add: fetch_all_orders_def unexpected_structure_msg_def repr_str_def repr_char_def
          Let_def del: fetch_all_orders_loop.simps)
qed

text \<open>
  Claim C3 asks that a page without \<^verbatim>\<open>errors\<close> whose \<^verbatim>\<open>data\<close> is present but lacks the
  expected field ends in a named condition and not in an unclassified crash. The code
  misses the page whose \<^verbatim>\<open>data\<close> is \<^verbatim>\<open>null\<close>: the key is there, so the first check
  passes, and \<^verbatim>\<open>data["data"].get\<close> on line 141 raises \<^verbatim>\<open>AttributeError\<close>, which is none
  of the \<^verbatim>\<open>RuntimeError\<close>s of the checks.
\<close>

theorem null_data_is_an_unclassified_crash:
  "check_response (JObj [(''data'', JNull)]) = Inl AttributeError
   \<and> fst (fetch_all_orders (\<lambda>limit offset. Inr (JObj [(''data'', JNull)])) 1
          \<lparr>files = (\<lambda>name. Absent), trace = []\<rparr>) = Raised AttributeError
   \<and> AttributeError \<noteq> RuntimeError missing_field_msg
   \<and> AttributeError \<noteq> RuntimeError schema_changed_msg"
  by (simp add: check_response_def py_get_def fetch_all_orders_def fetch_orders_persisted_def
      emit_def Let_def)

text \<open>
  Claim C10. When the decoded page is a dict whose \<^verbatim>\<open>errors\<close> entry is the empty array,
  the page loop still leaves with the generic \<^verbatim>\<open>RuntimeError\<close>, its text being
  \<^verbatim>\<open>GraphQL API error: Unknown error\<close>: the page is not taken as a page of orders, and
  the exception is not the schema-change one.
\<close>

theorem empty_errors_array_is_api_error:
  assumes "map_of kvs ''errors'' = Some (JArr [])"
    and "fst (fetch_orders_persisted fetch_orders 20 offset w) = Inr (JObj kvs, was_persisted)"
  shows "check_response (JObj kvs) = Inl (RuntimeError (api_error_msg (JStr ''Unknown error'')))
    \<and> fst (fetch_all_orders_loop fetch_orders (Suc fuel) offset w) =
         Raised (RuntimeError ''GraphQL API error: Unknown error'')
    \<and> RuntimeError ''GraphQL API error: Unknown error'' \<noteq> RuntimeError schema_changed_msg"
proof -
  have a: "check_response (JObj kvs) = Inl (RuntimeError ''GraphQL API error: Unknown error'')"
    using assms(1) by (rule check_response_empty_errors)
  with assms(2) have "fst (fetch_all_orders_loop fetch_orders (Suc fuel) offset w) =
         Raised (RuntimeError ''GraphQL API error: Unknown error'')"
    by (rule loop_raises)
  moreover have "''GraphQL API error: Unknown error'' \<noteq> schema_changed_msg"
    by (simp add: schema_changed_msg_def)
  ultimately show ?thesis
    using a by (simp add: api_error_msg_def)
qed

theorem empty_errors_array_is_api_error_witness:
  "fst (fetch_all_orders (\<lambda>limit offset. Inr (JObj [(''errors'', JArr []), (''data'', JNull)])) 1
          \<lparr>files = (\<lambda>name. Absent), trace = []\<rparr>)
     = Raised (RuntimeError ''GraphQL API error: Unknown error'')"
proof -
  let ?kvs = "[(''errors'', JArr []), (''data'', JNull)]"
  let ?f = "\<lambda>limit offset. Inr (JObj ?kvs) :: error + json"
  let ?w = "\<lparr>files = (\<lambda>name. Absent), trace = []\<rparr>"
  have h1: "map_of ?kvs ''errors'' = Some (JArr [])" by simp
  have h2: "fst (fetch_orders_persisted ?f 20 0 ?w) = Inr (JObj ?kvs, False)"
    by (simp add: fetch_orders_persisted_def emit_def Let_def)
  show ?thesis
    using empty_errors_array_is_api_error [OF h1 h2, of 0]
    by (simp add: fetch_all_orders_def del: fetch_all_orders_loop.simps)
qed

section \<open>Properties of the page loop\<close>

subsection \<open>File names\<close>

lemma digit_char_inj: "a < 10 \<Longrightarrow> b < 10 \<Longrightarrow> digit_char a = digit_char b \<Longrightarrow> a = b"
  by (simp add: digit_char_def split: if_splits) arith

lemma str_nat_not_Nil: "str_nat n \<noteq> []"
  by (subst str_nat.simps) simp

lemma str_nat_inj: "str_nat a = str_nat b \<Longrightarrow> a = b"
proof (induction a arbitrary: b rule: str_nat.induct)
  case (1 a)
  show ?case
  proof (cases "a < 10")
    case True
    then have a: "str_nat a = [digit_char a]" by (subst str_nat.simps) simp
    have "b < 10"
    proof (rule ccontr)
      assume "\<not> b < 10"
      then have "str_nat b = str_nat (b div 10) @ [digit_char (b mod 10)]"
        by (subst str_nat.simps) simp
      with a "1.prems" show False by (simp add: str_nat_not_Nil)
    qed
    then have "str_nat b = [digit_char b]" by (subst str_nat.simps) simp
    with a "1.prems" True \<open>b < 10\<close> show ?thesis by (simp add: digit_char_inj)
  next
    case False
    then have a: "str_nat a = str_nat (a div 10) @ [digit_char (a mod 10)]"
      by (subst str_nat.simps) simp
    have nb: "\<not> b < 10"
    proof
      assume "b < 10"
      then have "str_nat b = [digit_char b]" by (subst str_nat.simps) simp
      with a "1.prems" str_nat_not_Nil [of "a div 10"] show False by simp
    qed
    then have b: "str_nat b = str_nat (b div 10) @ [digit_char (b mod 10)]"
      by (subst str_nat.simps) simp
    from a b "1.prems" have e1: "str_nat (a div 10) = str_nat (b div 10)"
      and e2: "digit_char (a mod 10) = digit_char (b mod 10)" by simp_all
    from "1.IH" [OF False e1] have "a div 10 = b div 10" .
    moreover from e2 have "a mod 10 = b mod 10" by (simp add: digit_char_inj)
    ultimately show ?thesis by (metis div_mult_mod_eq)
  qed
qed

lemma orders_filename_inj:
  "orders_filename 20 (page_offset j) = orders_filename 20 (page_offset k) \<Longrightarrow> j = k"
  by (auto simp: orders_filename_def page_offset_def str_int_def dest: str_nat_inj)

lemma fetch_orders_persisted_fst:
  "fst (fetch_orders_persisted f limit offset w) =
    (case read_json (files w (orders_filename limit offset)) of
       Inr data \<Rightarrow> Inr (data, True)
     | Inl e \<Rightarrow>
        if e = IOError \<or> e = ValueError then
          (case f limit offset of
             Inl e' \<Rightarrow> Inl e'
           | Inr data \<Rightarrow>
              (case write_json (files w (orders_filename limit offset)) data of
                 Inl e' \<Rightarrow> Inl e'
               | Inr st \<Rightarrow> Inr (data, False)))
        else Inl e)"
  by (simp add: fetch_orders_persisted_def emit_def Let_def split: sum.splits)

lemma fetch_orders_persisted_files:
  "name \<noteq> orders_filename limit offset \<Longrightarrow>
   files (snd (fetch_orders_persisted f limit offset w)) name = files w name"
  by (simp add: fetch_orders_persisted_def emit_def Let_def split: sum.splits)

lemma fetch_orders_persisted_reads:
  "reads_and_yields (snd (fetch_orders_persisted f limit offset w)) =
   reads_and_yields w @ [ReadFile (orders_filename limit offset)]"
  by (simp add: fetch_orders_persisted_def emit_def Let_def reads_and_yields_def split: sum.splits)

lemma fetch_orders_persisted_fst_cong:
  "files w (orders_filename limit offset) = files w0 (orders_filename limit offset) \<Longrightarrow>
   fst (fetch_orders_persisted f limit offset w) = fst (fetch_orders_persisted f limit offset w0)"
  by (simp only: fetch_orders_persisted_fst)

lemma page_offset_Suc: "page_offset k + 20 = page_offset (Suc k)"
  by (simp add: page_offset_def)

lemma page_summaries_check_response:
  "page_summaries payload = Some orders \<Longrightarrow> check_response payload = Inr (JArr orders)"
  by (auto simp: page_summaries_def check_response_def py_get_def
      split: json.splits option.splits)

lemma page_payload_fetched:
  "page_payload f w k = Some payload \<Longrightarrow>
   \<exists>p. fst (fetch_orders_persisted f 20 (page_offset k) w) = Inr (payload, p)"
  by (auto simp: page_payload_def network_payload_def fetch_orders_persisted_fst
      split: file_state.splits file_content.splits sum.splits)

lemma page_payload_cong:
  "files w (orders_filename 20 (page_offset k)) = files w0 (orders_filename 20 (page_offset k)) \<Longrightarrow>
   page_payload f w k = page_payload f w0 k"
  by (simp add: page_payload_def)

lemma orders_of_SomeD:
  assumes "orders_of f w0 k = Some orders"
    and "files w (orders_filename 20 (page_offset k)) = files w0 (orders_filename 20 (page_offset k))"
  shows "\<exists>data p. fst (fetch_orders_persisted f 20 (page_offset k) w) = Inr (data, p)
           \<and> check_response data = Inr (JArr orders)"
proof -
  from assms(1) obtain payload where d: "page_payload f w0 k = Some payload"
    and o: "page_summaries payload = Some orders"
    by (auto simp: orders_of_def split: option.splits)
  from d page_payload_cong [OF assms(2), of f] have "page_payload f w k = Some payload" by simp
  then obtain p where "fst (fetch_orders_persisted f 20 (page_offset k) w) = Inr (payload, p)"
    using page_payload_fetched by blast
  with page_summaries_check_response [OF o] show ?thesis by blast
qed







text \<open>One pass through the loop body on a valid page.\<close>

lemma loop_step_empty:
  assumes "orders_of f w0 k = Some []"
    and "files w (orders_filename 20 (page_offset k)) = files w0 (orders_filename 20 (page_offset k))"
  shows "fetch_all_orders_loop f (Suc fuel) (page_offset k) w =
           (Finished, snd (fetch_orders_persisted f 20 (page_offset k) w))"
proof -
  from orders_of_SomeD [OF assms] obtain data p where
    "fst (fetch_orders_persisted f 20 (page_offset k) w) = Inr (data, p)"
    "check_response data = Inr (JArr [])" by blast
  then show ?thesis
    by (cases "fetch_orders_persisted f 20 (page_offset k) w") simp
qed

lemma loop_step_nonempty:
  assumes "orders_of f w0 k = Some orders" and "orders \<noteq> []"
    and "files w (orders_filename 20 (page_offset k)) = files w0 (orders_filename 20 (page_offset k))"
  shows "\<exists>w3. fetch_all_orders_loop f (Suc fuel) (page_offset k) w =
                 fetch_all_orders_loop f fuel (page_offset (Suc k)) w3
            \<and> files w3 = files (snd (fetch_orders_persisted f 20 (page_offset k) w))
            \<and> reads_and_yields w3 = reads_and_yields w @ page_events f w0 k"
proof -
  from orders_of_SomeD [OF assms(1,3)] obtain data p where
    a: "fst (fetch_orders_persisted f 20 (page_offset k) w) = Inr (data, p)"
    and b: "check_response data = Inr (JArr orders)" by blast
  obtain r w1 where c: "fetch_orders_persisted f 20 (page_offset k) w = (r, w1)"
    by (cases "fetch_orders_persisted f 20 (page_offset k) w")
  with a have r: "r = Inr (data, p)" by simp
  have w1: "reads_and_yields w1 = reads_and_yields w @ [ReadFile (orders_filename 20 (page_offset k))]"
    using fetch_orders_persisted_reads [of f 20 "page_offset k" w] c by simp
  let ?w2 = "emit (map Yield orders) w1"
  let ?w3 = "if p then ?w2 else emit [Sleep] ?w2"
  have "fetch_all_orders_loop f (Suc fuel) (page_offset k) w =
          fetch_all_orders_loop f fuel (page_offset (Suc k)) ?w3"
    using c r b assms(2) by (simp add: page_offset_Suc Let_def)
  moreover have "files ?w3 = files (snd (fetch_orders_persisted f 20 (page_offset k) w))"
    using c by (simp add: emit_def)
  moreover have "reads_and_yields ?w3 = reads_and_yields w @ page_events f w0 k"
    using w1 assms(1) by (simp add: emit_def reads_and_yields_def page_events_def)
  ultimately show ?thesis by blast
qed

lemma loop_pages:
  assumes valid: "\<forall>j. orders_of f w0 j \<noteq> None"
    and inv: "\<forall>j\<ge>k. files w (orders_filename 20 (page_offset j)) = files w0 (orders_filename 20 (page_offset j))"
    and run: "fetch_all_orders_loop f fuel (page_offset k) w = (out, w')"
  shows "(out = Running \<and> (\<forall>j. k \<le> j \<and> j < k + fuel \<longrightarrow> orders_of f w0 j \<noteq> Some [])
            \<and> reads_and_yields w' = reads_and_yields w @ concat (map (page_events f w0) [k..<k + fuel]))
       \<or> (out = Finished \<and> (\<exists>m. k \<le> m \<and> m < k + fuel \<and> orders_of f w0 m = Some []
            \<and> (\<forall>j. k \<le> j \<and> j < m \<longrightarrow> orders_of f w0 j \<noteq> Some [])
            \<and> reads_and_yields w' = reads_and_yields w @ concat (map (page_events f w0) [k..<m])
                 @ [ReadFile (orders_filename 20 (page_offset m))]))"
  using inv run
proof (induction fuel arbitrary: k w)
  case 0
  then show ?case by auto
next
  case (Suc fuel)
  from valid obtain orders where o: "orders_of f w0 k = Some orders" by blast
  have fk: "files w (orders_filename 20 (page_offset k)) = files w0 (orders_filename 20 (page_offset k))"
    using Suc.prems(1) by simp
  show ?case
  proof (cases "orders = []")
    case True
    with o have e: "orders_of f w0 k = Some []" by simp
    from loop_step_empty [OF e fk, of fuel] Suc.prems(2)
    have "out = Finished" and "w' = snd (fetch_orders_persisted f 20 (page_offset k) w)" by simp_all
    then have "out = Finished \<and> k \<le> k \<and> k < k + Suc fuel \<and> orders_of f w0 k = Some []
            \<and> (\<forall>j. k \<le> j \<and> j < k \<longrightarrow> orders_of f w0 j \<noteq> Some [])
            \<and> reads_and_yields w' = reads_and_yields w @ concat (map (page_events f w0) [k..<k])
                 @ [ReadFile (orders_filename 20 (page_offset k))]"
      using e by (auto simp: fetch_orders_persisted_reads)
    then show ?thesis by blast
  next
    case False
    from loop_step_nonempty [OF o False fk, of fuel] obtain w3 where
      s: "fetch_all_orders_loop f (Suc fuel) (page_offset k) w =
            fetch_all_orders_loop f fuel (page_offset (Suc k)) w3"
      and fw3: "files w3 = files (snd (fetch_orders_persisted f 20 (page_offset k) w))"
      and tw3: "reads_and_yields w3 = reads_and_yields w @ page_events f w0 k" by blast
    have inv3: "\<forall>j\<ge>Suc k. files w3 (orders_filename 20 (page_offset j)) = files w0 (orders_filename 20 (page_offset j))"
    proof (intro allI impI)
      fix j assume j: "Suc k \<le> j"
      then have "orders_filename 20 (page_offset j) \<noteq> orders_filename 20 (page_offset k)"
        using orders_filename_inj [of j k] by auto
      then have "files w3 (orders_filename 20 (page_offset j)) = files w (orders_filename 20 (page_offset j))"
        using fw3 by (simp add: fetch_orders_persisted_files)
      with Suc.prems(1) j show "files w3 (orders_filename 20 (page_offset j)) = files w0 (orders_filename 20 (page_offset j))"
        by simp
    qed
    from s Suc.prems(2) have run3: "fetch_all_orders_loop f fuel (page_offset (Suc k)) w3 = (out, w')"
      by simp
    have nk: "orders_of f w0 k \<noteq> Some []" using o False by simp
    have up: "[k..<k + Suc fuel] = k # [Suc k..<Suc k + fuel]"
      by (simp add: upt_conv_Cons)
    from Suc.IH [OF inv3 run3] show ?thesis
    proof (elim disjE conjE exE)
      assume r: "out = Running"
        and ne: "\<forall>j. Suc k \<le> j \<and> j < Suc k + fuel \<longrightarrow> orders_of f w0 j \<noteq> Some []"
        and t: "reads_and_yields w' = reads_and_yields w3 @ concat (map (page_events f w0) [Suc k..<Suc k + fuel])"
      have "\<forall>j. k \<le> j \<and> j < k + Suc fuel \<longrightarrow> orders_of f w0 j \<noteq> Some []"
      proof (intro allI impI)
        fix j assume "k \<le> j \<and> j < k + Suc fuel"
        then have "j = k \<or> (Suc k \<le> j \<and> j < Suc k + fuel)" by arith
        with nk ne show "orders_of f w0 j \<noteq> Some []" by blast
      qed
      moreover have "reads_and_yields w' = reads_and_yields w @ concat (map (page_events f w0) [k..<k + Suc fuel])"
        using t tw3 up by simp
      ultimately show ?thesis using r by blast
    next
      fix m
      assume r: "out = Finished" and m1: "Suc k \<le> m" and m2: "m < Suc k + fuel"
        and me: "orders_of f w0 m = Some []"
        and ne: "\<forall>j. Suc k \<le> j \<and> j < m \<longrightarrow> orders_of f w0 j \<noteq> Some []"
        and t: "reads_and_yields w' = reads_and_yields w3 @ concat (map (page_events f w0) [Suc k..<m])
                 @ [ReadFile (orders_filename 20 (page_offset m))]"
      have "\<forall>j. k \<le> j \<and> j < m \<longrightarrow> orders_of f w0 j \<noteq> Some []"
      proof (intro allI impI)
        fix j assume "k \<le> j \<and> j < m"
        then have "j = k \<or> (Suc k \<le> j \<and> j < m)" by arith
        with nk ne show "orders_of f w0 j \<noteq> Some []" by blast
      qed
      moreover have "[k..<m] = k # [Suc k..<m]" using m1 by (simp add: upt_conv_Cons)
      then have "reads_and_yields w' = reads_and_yields w @ concat (map (page_events f w0) [k..<m])
                 @ [ReadFile (orders_filename 20 (page_offset m))]"
        using t tw3 by simp
      moreover have "k \<le> m" "m < k + Suc fuel" using m1 m2 by simp_all
      ultimately show ?thesis using r me by blast
    qed
  qed
qed

text \<open>
  Claim C1. When every page is valid: the generator comes to its end for some amount of
  fuel exactly when the payload of some page holds no order summaries; it never raises;
  when it has come to its end, the last page read is the first empty one, all pages
  before it are non-empty, and what the consumer saw is, page after page, the read of
  the page followed by all the order summaries of its payload in the order received,
  and then the read of the empty page; while it is still running after \<open>fuel\<close> passes,
  none of the pages read was empty and the same holds for those \<open>fuel\<close> pages.
\<close>

theorem fetch_all_orders_stops_at_first_empty_page:
  assumes "\<forall>k. orders_of f w k \<noteq> None"
  shows "((\<exists>fuel. fst (fetch_all_orders f fuel w) = Finished) \<longleftrightarrow> (\<exists>k. orders_of f w k = Some []))
    \<and> (\<forall>fuel e. fst (fetch_all_orders f fuel w) \<noteq> Raised e)
    \<and> (\<forall>fuel. fst (fetch_all_orders f fuel w) = Finished \<longrightarrow>
         (\<exists>m<fuel. orders_of f w m = Some [] \<and> (\<forall>j<m. orders_of f w j \<noteq> Some [])
            \<and> reads_and_yields (snd (fetch_all_orders f fuel w)) =
                reads_and_yields w @ concat (map (page_events f w) [0..<m])
                  @ [ReadFile (orders_filename 20 (page_offset m))]))
    \<and> (\<forall>fuel. fst (fetch_all_orders f fuel w) = Running \<longrightarrow>
         (\<forall>j<fuel. orders_of f w j \<noteq> Some [])
          \<and> reads_and_yields (snd (fetch_all_orders f fuel w)) =
                reads_and_yields w @ concat (map (page_events f w) [0..<fuel]))"
proof -
  have run: "\<And>fuel. fetch_all_orders f fuel w =
      (fst (fetch_all_orders f fuel w), snd (fetch_all_orders f fuel w))" by simp
  have pages: "\<And>fuel.
       (fst (fetch_all_orders f fuel w) = Running \<and> (\<forall>j<fuel. orders_of f w j \<noteq> Some [])
            \<and> reads_and_yields (snd (fetch_all_orders f fuel w)) =
                reads_and_yields w @ concat (map (page_events f w) [0..<fuel]))
       \<or> (fst (fetch_all_orders f fuel w) = Finished \<and> (\<exists>m<fuel. orders_of f w m = Some []
            \<and> (\<forall>j<m. orders_of f w j \<noteq> Some [])
            \<and> reads_and_yields (snd (fetch_all_orders f fuel w)) =
                reads_and_yields w @ concat (map (page_events f w) [0..<m])
                 @ [ReadFile (orders_filename 20 (page_offset m))]))"
  proof -
    fix fuel
    have "fetch_all_orders_loop f fuel (page_offset 0) w =
      (fst (fetch_all_orders f fuel w), snd (fetch_all_orders f fuel w))"
      by (simp add: fetch_all_orders_def page_offset_def)
    from loop_pages [OF assms _ this] show "?thesis fuel" by simp
  qed
  have a: "(\<exists>fuel. fst (fetch_all_orders f fuel w) = Finished) \<longleftrightarrow> (\<exists>k. orders_of f w k = Some [])"
  proof
    assume "\<exists>fuel. fst (fetch_all_orders f fuel w) = Finished"
    then obtain fuel where "fst (fetch_all_orders f fuel w) = Finished" ..
    with pages [of fuel] show "\<exists>k. orders_of f w k = Some []" by auto
  next
    assume "\<exists>k. orders_of f w k = Some []"
    then obtain k where "orders_of f w k = Some []" ..
    with pages [of "Suc k"] have "fst (fetch_all_orders f (Suc k) w) = Finished" by auto
    then show "\<exists>fuel. fst (fetch_all_orders f fuel w) = Finished" ..
  qed
  have b: "\<forall>fuel e. fst (fetch_all_orders f fuel w) \<noteq> Raised e"
  proof (intro allI)
    fix fuel e from pages [of fuel] show "fst (fetch_all_orders f fuel w) \<noteq> Raised e" by auto
  qed
  have c: "\<forall>fuel. fst (fetch_all_orders f fuel w) = Finished \<longrightarrow>
         (\<exists>m<fuel. orders_of f w m = Some [] \<and> (\<forall>j<m. orders_of f w j \<noteq> Some [])
            \<and> reads_and_yields (snd (fetch_all_orders f fuel w)) =
                reads_and_yields w @ concat (map (page_events f w) [0..<m])
                  @ [ReadFile (orders_filename 20 (page_offset m))])"
  proof (intro allI impI)
    fix fuel assume "fst (fetch_all_orders f fuel w) = Finished"
    with pages [of fuel] show "\<exists>m<fuel. orders_of f w m = Some [] \<and> (\<forall>j<m. orders_of f w j \<noteq> Some [])
            \<and> reads_and_yields (snd (fetch_all_orders f fuel w)) =
                reads_and_yields w @ concat (map (page_events f w) [0..<m])
                  @ [ReadFile (orders_filename 20 (page_offset m))]" by simp
  qed
  have d: "\<forall>fuel. fst (fetch_all_orders f fuel w) = Running \<longrightarrow>
         (\<forall>j<fuel. orders_of f w j \<noteq> Some [])
          \<and> reads_and_yields (snd (fetch_all_orders f fuel w)) =
                reads_and_yields w @ concat (map (page_events f w) [0..<fuel])"
  proof (intro allI impI)
    fix fuel assume "fst (fetch_all_orders f fuel w) = Running"
    with pages [of fuel] show "(\<forall>j<fuel. orders_of f w j \<noteq> Some [])
          \<and> reads_and_yields (snd (fetch_all_orders f fuel w)) =
                reads_and_yields w @ concat (map (page_events f w) [0..<fuel])" by simp
  qed
  from a b c d show ?thesis by blast
qed

lemma page_summaries_page_of: "page_summaries (page_of orders) = Some orders"
  by (simp add: page_summaries_def page_of_def)

theorem fetch_all_orders_stops_at_first_empty_page_witness:
  "(\<forall>k. orders_of (\<lambda>limit offset. Inr (page_of (if offset = 0 then [JStr ''first'', JStr ''second''] else [])))
           \<lparr>files = (\<lambda>name. Absent), trace = []\<rparr> k \<noteq> None)
   \<and> (\<exists>fuel. fst (fetch_all_orders (\<lambda>limit offset. Inr (page_of (if offset = 0 then [JStr ''first'', JStr ''second''] else [])))
           fuel \<lparr>files = (\<lambda>name. Absent), trace = []\<rparr>) = Finished
        \<and> reads_and_yields (snd (fetch_all_orders (\<lambda>limit offset. Inr (page_of (if offset = 0 then [JStr ''first'', JStr ''second''] else [])))
           fuel \<lparr>files = (\<lambda>name. Absent), trace = []\<rparr>)) =
           [ReadFile (orders_filename 20 0), Yield (JStr ''first''), Yield (JStr ''second''),
            ReadFile (orders_filename 20 20)])"
proof -
  let ?f = "\<lambda>limit offset. Inr (page_of (if offset = 0 then [JStr ''first'', JStr ''second''] else [])) :: error + json"
  let ?w = "\<lparr>files = (\<lambda>name. Absent), trace = []\<rparr>"
  have o: "\<And>k. orders_of ?f ?w k = Some (if k = 0 then [JStr ''first'', JStr ''second''] else [])"
    by (simp add: orders_of_def page_payload_def network_payload_def page_summaries_page_of page_offset_def)
  then have h: "\<forall>k. orders_of ?f ?w k \<noteq> None" by simp
  note t = fetch_all_orders_stops_at_first_empty_page [OF h]
  from t have t1: "(\<exists>fuel. fst (fetch_all_orders ?f fuel ?w) = Finished) \<longleftrightarrow> (\<exists>k. orders_of ?f ?w k = Some [])"
    by (rule conjunct1)
  from t have t3: "\<forall>fuel. fst (fetch_all_orders ?f fuel ?w) = Finished \<longrightarrow>
         (\<exists>m<fuel. orders_of ?f ?w m = Some [] \<and> (\<forall>j<m. orders_of ?f ?w j \<noteq> Some [])
            \<and> reads_and_yields (snd (fetch_all_orders ?f fuel ?w)) =
                reads_and_yields ?w @ concat (map (page_events ?f ?w) [0..<m])
                  @ [ReadFile (orders_filename 20 (page_offset m))])"
    by (rule conjunct1 [OF conjunct2 [OF conjunct2]])
  have "orders_of ?f ?w 1 = Some []" by (simp add: o)
  then have "\<exists>k. orders_of ?f ?w k = Some []" ..
  with t1 obtain fuel where fin: "fst (fetch_all_orders ?f fuel ?w) = Finished" by blast
  with t3 obtain m where m: "orders_of ?f ?w m = Some []"
    and b: "\<forall>j<m. orders_of ?f ?w j \<noteq> Some []"
    and tr: "reads_and_yields (snd (fetch_all_orders ?f fuel ?w)) =
                reads_and_yields ?w @ concat (map (page_events ?f ?w) [0..<m])
                  @ [ReadFile (orders_filename 20 (page_offset m))]"
    by blast
  from m have "m \<noteq> 0" by (simp add: o split: if_splits)
  moreover have "\<not> 1 < m"
  proof
    assume "1 < m"
    with b have "orders_of ?f ?w 1 \<noteq> Some []" by blast
    then show False by (simp add: o)
  qed
  ultimately have "m = 1" by simp
  with tr have "reads_and_yields (snd (fetch_all_orders ?f fuel ?w)) =
           [ReadFile (orders_filename 20 0), Yield (JStr ''first''), Yield (JStr ''second''),
            ReadFile (orders_filename 20 20)]"
    by (simp add: page_events_def o reads_and_yields_def page_offset_def)
  with fin h show ?thesis by blast
qed

section \<open>Properties of the cache\<close>




section \<open>Properties of the rows\<close>

subsection \<open>The person\<close>

lemma strip_no_break_space: "strip (CHR 0x85 # ''Amy'' @ [CHR 0xA0, CHR '' '']) = ''Amy''"
  by (simp add: strip_def py_isspace_def)

lemma strip_Unknown: "strip (''Unknown'' @ '' '' @ []) = ''Unknown''"
  by (simp add: strip_def py_isspace_def)

lemma person_name_of_creator:
  assumes "py_get sub_order ''creator'' = Inr (JObj kvs)" and "kvs \<noteq> []"
  shows "person_name_of sub_order =
     Inr (strip (name_or ''Unknown'' (map_of kvs ''firstName'') @ '' '' @ name_or [] (map_of kvs ''lastName'')))"
  using assms
  by (simp add: person_name_of_def py_get_def py_or_def name_or_def Let_def split: option.splits)

text \<open>
  Claim C6, as stated, does not hold. For a creator whose first name is \<^verbatim>\<open>null\<close> and
  whose last name is \<^verbatim>\<open>Smith\<close>, one name is present, so the claim gives the trimmed
  \<^verbatim>\<open>" Smith"\<close>; the code puts the default in place of the first name alone and gives
  \<^verbatim>\<open>Unknown Smith\<close>.
\<close>

theorem person_name_counterexample:
  "person_name_of (JObj [(''creator'', JObj [(''firstName'', JNull), (''lastName'', JStr ''Smith'')])])
     = Inr ''Unknown Smith''
   \<and> spec_person_name (JObj [(''firstName'', JNull), (''lastName'', JStr ''Smith'')]) = ''Smith''"
  by (simp add: person_name_of_def py_get_def py_or_def spec_person_name_def spec_name_field_def
      strip_def py_isspace_def)

text \<open>
  Claim C6, amended. The person is \<^verbatim>\<open>Unknown\<close> when the sub-order has no creator or an
  empty one. Otherwise it is the trimmed text of F, a space and L, where F is the first
  name, or \<^verbatim>\<open>Unknown\<close> when the first name is absent or empty, and L is the last name,
  or the empty text when the last name is absent or empty. So it is \<^verbatim>\<open>Unknown\<close> when
  both names are absent or empty, and the creator with first name \<^verbatim>\<open>Amy\<close> and last
  name \<^verbatim>\<open>null\<close> gives \<^verbatim>\<open>Amy\<close>.
\<close>

theorem person_name_resolution:
  assumes "py_get sub_order ''creator'' = Inr creator"
  shows "(\<not> py_truthy creator \<longrightarrow> person_name_of sub_order = Inr ''Unknown'')
    \<and> (\<forall>kvs. creator = JObj kvs \<and> kvs \<noteq> [] \<longrightarrow>
          person_name_of sub_order =
            Inr (strip (name_or ''Unknown'' (map_of kvs ''firstName'') @ '' '' @
                        name_or [] (map_of kvs ''lastName''))))
    \<and> (\<forall>kvs. creator = JObj kvs \<and> absent_or_empty (map_of kvs ''firstName'')
              \<and> absent_or_empty (map_of kvs ''lastName'') \<longrightarrow>
          person_name_of sub_order = Inr ''Unknown'')
    \<and> person_name_of (JObj [(''creator'', JObj [(''firstName'', JStr ''Amy''), (''lastName'', JNull)])])
         = Inr ''Amy''"
proof -
  have a: "\<not> py_truthy creator \<longrightarrow> person_name_of sub_order = Inr ''Unknown''"
    using assms by (simp add: person_name_of_def)
  have b: "\<forall>kvs. creator = JObj kvs \<and> kvs \<noteq> [] \<longrightarrow>
          person_name_of sub_order =
            Inr (strip (name_or ''Unknown'' (map_of kvs ''firstName'') @ '' '' @
                        name_or [] (map_of kvs ''lastName'')))"
    using assms by (auto simp: person_name_of_creator)
  have c: "\<forall>kvs. creator = JObj kvs \<and> absent_or_empty (map_of kvs ''firstName'')
              \<and> absent_or_empty (map_of kvs ''lastName'') \<longrightarrow>
          person_name_of sub_order = Inr ''Unknown''"
  proof (intro allI impI)
    fix kvs
    assume h: "creator = JObj kvs \<and> absent_or_empty (map_of kvs ''firstName'')
              \<and> absent_or_empty (map_of kvs ''lastName'')"
    show "person_name_of sub_order = Inr ''Unknown''"
    proof (cases "kvs = []")
      case True
      with h a show ?thesis by simp
    next
      case False
      from h have "name_or ''Unknown'' (map_of kvs ''firstName'') = ''Unknown''"
        and "name_or [] (map_of kvs ''lastName'') = []"
        by (auto simp: absent_or_empty_def name_or_def split: option.splits)
      with b h False strip_Unknown show ?thesis by simp
    qed
  qed
  have d: "person_name_of (JObj [(''creator'', JObj [(''firstName'', JStr ''Amy''), (''lastName'', JNull)])])
         = Inr ''Amy''"
    by (simp add: person_name_of_def py_get_def py_or_def strip_def py_isspace_def)
  from a b c d show ?thesis by blast
qed

theorem person_name_resolution_witness:
  "person_name_of (JObj [(''creator'', JObj [(''firstName'', JStr ''Amy''), (''lastName'', JStr ''Pond'')]), (''items'', JArr [])])
     = Inr (strip ''Amy Pond'')
   \<and> person_name_of (JObj [(''items'', JArr [])]) = Inr ''Unknown''"
proof -
  let ?kvs = "[(''firstName'', JStr ''Amy''), (''lastName'', JStr ''Pond'')]"
  let ?s = "JObj [(''creator'', JObj ?kvs), (''items'', JArr [])]"
  let ?s' = "JObj [(''items'', JArr [])]"
  have h: "py_get ?s ''creator'' = Inr (JObj ?kvs)" by (simp add: py_get_def)
  have h': "py_get ?s' ''creator'' = Inr JNull" by (simp add: py_get_def)
  from person_name_resolution [OF h] have "person_name_of ?s =
      Inr (strip (name_or ''Unknown'' (map_of ?kvs ''firstName'') @ '' '' @
                        name_or [] (map_of ?kvs ''lastName'')))" by blast
  moreover from person_name_resolution [OF h'] have "person_name_of ?s' = Inr ''Unknown''" by simp
  ultimately show ?thesis by (simp add: name_or_def)
qed

subsection \<open>One row per item\<close>

lemma extra_options_loop_view:
  "list_all2 option_view os ns \<Longrightarrow>
   extra_options_loop en os options = Inr (options @ map (\<lambda>n. (en, n)) ns)"
proof (induction os ns arbitrary: options rule: list_all2_induct)
  case Nil
  then show ?case by simp
next
  case (Cons o1 os n ns)
  then show ?case by (simp add: option_view_def)
qed

lemma extra_options_loop_Inr:
  "extra_options_loop en os options = Inr options' \<Longrightarrow>
   \<exists>ns. list_all2 option_view os ns \<and> options' = options @ map (\<lambda>n. (en, n)) ns"
proof (induction os arbitrary: options)
  case Nil
  then show ?case by simp
next
  case (Cons o1 os)
  from Cons.prems obtain n where n: "py_getitem o1 ''name'' = Inr n"
    and r: "extra_options_loop en os (options @ [(en, n)]) = Inr options'"
    by (auto simp: bnd_eq_Inr)
  from Cons.IH [OF r] obtain ns where "list_all2 option_view os ns"
    and "options' = (options @ [(en, n)]) @ map (\<lambda>n. (en, n)) ns" by blast
  with n have "list_all2 option_view (o1 # os) (n # ns) \<and> options' = options @ map (\<lambda>n. (en, n)) (n # ns)"
    by (simp add: option_view_def)
  then show ?case by blast
qed

lemma extras_loop_view:
  "list_all2 extra_view es extras \<Longrightarrow>
   extras_loop es options = Inr (options @ option_pairs extras)"
proof (induction es extras arbitrary: options rule: list_all2_induct)
  case Nil
  then show ?case by (simp add: option_pairs_def)
next
  case (Cons e es x extras)
  from Cons.hyps(1) obtain os where n: "py_getitem e ''name'' = Inr (fst x)"
    and o: "bnd (py_get_default e ''orderItemExtraOptions'' (JArr [])) py_iter = Inr os"
    and v: "list_all2 option_view os (snd x)"
    by (auto simp: extra_view_def split: sum.splits)
  from o obtain raw where r1: "py_get_default e ''orderItemExtraOptions'' (JArr []) = Inr raw"
    and r2: "py_iter raw = Inr os" by (auto simp: bnd_eq_Inr)
  have "extras_loop (e # es) options =
      extras_loop es (options @ map (\<lambda>n. (fst x, n)) (snd x))"
    using n r1 r2 extra_options_loop_view [OF v] by simp
  also have "\<dots> = Inr ((options @ map (\<lambda>n. (fst x, n)) (snd x)) @ option_pairs extras)"
    by (rule Cons.IH)
  finally show ?case by (simp add: option_pairs_def)
qed

lemma extras_loop_Inr:
  "extras_loop es options = Inr options' \<Longrightarrow>
   \<exists>extras. list_all2 extra_view es extras \<and> options' = options @ option_pairs extras"
proof (induction es arbitrary: options)
  case Nil
  then show ?case by (simp add: option_pairs_def)
next
  case (Cons e es)
  from Cons.prems obtain en raw os options1 where n: "py_getitem e ''name'' = Inr en"
    and r1: "py_get_default e ''orderItemExtraOptions'' (JArr []) = Inr raw"
    and r2: "py_iter raw = Inr os"
    and l: "extra_options_loop en os options = Inr options1"
    and r: "extras_loop es options1 = Inr options'"
    by (auto simp: bnd_eq_Inr)
  from extra_options_loop_Inr [OF l] obtain ns where v: "list_all2 option_view os ns"
    and o1: "options1 = options @ map (\<lambda>n. (en, n)) ns" by blast
  from Cons.IH [OF r] obtain extras where vs: "list_all2 extra_view es extras"
    and o2: "options' = options1 @ option_pairs extras" by blast
  have "extra_view e (en, ns)" using n r1 r2 v by (simp add: extra_view_def)
  with vs have "list_all2 extra_view (e # es) ((en, ns) # extras)" by simp
  moreover have "options' = options @ option_pairs ((en, ns) # extras)"
    using o1 o2 by (simp add: option_pairs_def)
  ultimately show ?case by blast
qed

lemma item_options_view:
  "item_view item i \<Longrightarrow> item_options item = Inr (option_pairs (snd i))"
proof -
  assume "item_view item i"
  then obtain es where o: "bnd (py_get_default item ''orderItemExtras'' (JArr [])) py_iter = Inr es"
    and v: "list_all2 extra_view es (snd i)"
    by (auto simp: item_view_def split: sum.splits)
  from o obtain raw where "py_get_default item ''orderItemExtras'' (JArr []) = Inr raw"
    and "py_iter raw = Inr es" by (auto simp: bnd_eq_Inr)
  then show ?thesis using extras_loop_view [OF v, of "[]"] by (simp add: item_options_def)
qed

lemma item_options_Inr:
  assumes "py_getitem item ''name'' = Inr n" and "item_options item = Inr opts"
  shows "\<exists>extras. item_view item (n, extras) \<and> opts = option_pairs extras"
proof -
  from assms(2) obtain raw es where r1: "py_get_default item ''orderItemExtras'' (JArr []) = Inr raw"
    and r2: "py_iter raw = Inr es" and l: "extras_loop es [] = Inr opts"
    by (auto simp: item_options_def bnd_eq_Inr)
  from extras_loop_Inr [OF l] obtain extras where "list_all2 extra_view es extras"
    and "opts = option_pairs extras" by auto
  with assms(1) r1 r2 have "item_view item (n, extras) \<and> opts = option_pairs extras"
    by (simp add: item_view_def)
  then show ?thesis ..
qed

lemma options_string_of_pairs: "options_string_of (option_pairs extras) = options_summary extras"
  by (simp add: options_string_of_def options_summary_def case_prod_unfold)

lemma items_loop_view:
  "list_all2 item_view items typed \<Longrightarrow>
   items_loop oid dt st pn items rows = Inr (rows @ map (flat_row oid dt st pn) typed)"
proof (induction items typed arbitrary: rows rule: list_all2_induct)
  case Nil
  then show ?case by simp
next
  case (Cons item items i typed)
  from Cons.hyps(1) have n: "py_getitem item ''name'' = Inr (fst i)" by (simp add: item_view_def)
  have "items_loop oid dt st pn (item # items) rows =
      items_loop oid dt st pn items (rows @ [flat_row oid dt st pn i])"
    using n item_options_view [OF Cons.hyps(1)]
    by (simp add: flat_row_def options_string_of_pairs)
  also have "\<dots> = Inr ((rows @ [flat_row oid dt st pn i]) @ map (flat_row oid dt st pn) typed)"
    by (rule Cons.IH)
  finally show ?case by simp
qed

lemma items_loop_Inr:
  "items_loop oid dt st pn items rows = Inr rows' \<Longrightarrow> \<exists>typed. list_all2 item_view items typed"
proof (induction items arbitrary: rows)
  case Nil
  then show ?case by simp
next
  case (Cons item items)
  from Cons.prems obtain n opts rows1 where n: "py_getitem item ''name'' = Inr n"
    and o: "item_options item = Inr opts"
    and r: "items_loop oid dt st pn items rows1 = Inr rows'"
    by (auto simp: bnd_eq_Inr)
  from item_options_Inr [OF n o] obtain extras where "item_view item (n, extras)" by blast
  moreover from Cons.IH [OF r] obtain typed where "list_all2 item_view items typed" by blast
  ultimately have "list_all2 item_view (item # items) ((n, extras) # typed)" by simp
  then show ?case by blast
qed

lemma sub_orders_loop_view:
  "list_all2 sub_order_view subs typed \<Longrightarrow>
   sub_orders_loop oid dt st subs rows = Inr (rows @ flat_rows oid dt st typed)"
proof (induction subs typed arbitrary: rows rule: list_all2_induct)
  case Nil
  then show ?case by (simp add: flat_rows_def)
next
  case (Cons sub subs s typed)
  from Cons.hyps(1) obtain items where p: "person_name_of sub = Inr (fst s)"
    and o: "bnd (py_getitem sub ''items'') py_iter = Inr items"
    and v: "list_all2 item_view items (snd s)"
    by (auto simp: sub_order_view_def split: sum.splits)
  from o obtain raw where r1: "py_getitem sub ''items'' = Inr raw" and r2: "py_iter raw = Inr items"
    by (auto simp: bnd_eq_Inr)
  have "sub_orders_loop oid dt st (sub # subs) rows =
      sub_orders_loop oid dt st subs (rows @ map (flat_row oid dt st (fst s)) (snd s))"
    using p r1 r2 items_loop_view [OF v] by simp
  also have "\<dots> = Inr ((rows @ map (flat_row oid dt st (fst s)) (snd s)) @ flat_rows oid dt st typed)"
    by (rule Cons.IH)
  finally show ?case by (simp add: flat_rows_def)
qed

lemma sub_orders_loop_Inr:
  "sub_orders_loop oid dt st subs rows = Inr rows' \<Longrightarrow> \<exists>typed. list_all2 sub_order_view subs typed"
proof (induction subs arbitrary: rows)
  case Nil
  then show ?case by simp
next
  case (Cons sub subs)
  from Cons.prems obtain pn raw items rows1 where p: "person_name_of sub = Inr pn"
    and r1: "py_getitem sub ''items'' = Inr raw" and r2: "py_iter raw = Inr items"
    and l: "items_loop oid dt st pn items rows = Inr rows1"
    and r: "sub_orders_loop oid dt st subs rows1 = Inr rows'"
    by (auto simp: bnd_eq_Inr)
  from items_loop_Inr [OF l] obtain ti where "list_all2 item_view items ti" by blast
  with p r1 r2 have "sub_order_view sub (pn, ti)" by (simp add: sub_order_view_def)
  moreover from Cons.IH [OF r] obtain typed where "list_all2 sub_order_view subs typed" by blast
  ultimately have "list_all2 sub_order_view (sub # subs) ((pn, ti) # typed)" by simp
  then show ?case by blast
qed

lemma length_flat_rows: "length (flat_rows oid dt st typed) = sum_list (map (\<lambda>s. length (snd s)) typed)"
  by (simp add: flat_rows_def length_concat comp_def)

lemma options_summary_no_options: "option_pairs extras = [] \<Longrightarrow> options_summary extras = []"
  by (simp add: options_summary_def)

text \<open>
  Claim C7. For sub-orders and items of the shape above: the loop over the sub-orders
  adds, after the rows it was given, the rows of the first sub-order, then those of the
  second, and so on, one row for every item and no other; the loop over the items of
  one sub-order adds one row per item, the \<open>n\<close>-th row holding the name and the options
  of the \<open>n\<close>-th item; the options of a row are every pair of extra name and option
  name in the order of the source, each written \<^verbatim>\<open>extraName: optionName\<close>, joined with
  a comma and a space; and they are the empty text when no extra has an option.
\<close>

theorem flattening_one_row_per_item:
  assumes "list_all2 sub_order_view sub_orders typed"
    and "list_all2 item_view items typed_items"
  shows "sub_orders_loop order_id delivery_time store_name sub_orders rows =
           Inr (rows @ flat_rows order_id delivery_time store_name typed)
    \<and> length (flat_rows order_id delivery_time store_name typed) =
        sum_list (map (\<lambda>s. length (snd s)) typed)
    \<and> items_loop order_id delivery_time store_name person_name items rows =
           Inr (rows @ map (flat_row order_id delivery_time store_name person_name) typed_items)
    \<and> length typed_items = length items
    \<and> (\<forall>n<length items.
          py_getitem (items ! n) ''name'' = Inr (fst (typed_items ! n))
          \<and> row_item (flat_row order_id delivery_time store_name person_name (typed_items ! n)) =
              fst (typed_items ! n)
          \<and> row_options (flat_row order_id delivery_time store_name person_name (typed_items ! n)) =
              options_summary (snd (typed_items ! n)))
    \<and> options_summary extras =
        join '', '' (map (\<lambda>p. py_str (fst p) @ '': '' @ py_str (snd p))
          (concat (map (\<lambda>e. map (\<lambda>option_name. (fst e, option_name)) (snd e)) extras)))
    \<and> (concat (map snd extras) = [] \<longrightarrow> options_summary extras = [])"
proof -
  have a: "sub_orders_loop order_id delivery_time store_name sub_orders rows =
           Inr (rows @ flat_rows order_id delivery_time store_name typed)"
    using assms(1) by (rule sub_orders_loop_view)
  have b: "items_loop order_id delivery_time store_name person_name items rows =
           Inr (rows @ map (flat_row order_id delivery_time store_name person_name) typed_items)"
    using assms(2) by (rule items_loop_view)
  have c: "length typed_items = length items"
    using assms(2) by (simp add: list_all2_lengthD)
  have d: "\<forall>n<length items.
          py_getitem (items ! n) ''name'' = Inr (fst (typed_items ! n))
          \<and> row_item (flat_row order_id delivery_time store_name person_name (typed_items ! n)) =
              fst (typed_items ! n)
          \<and> row_options (flat_row order_id delivery_time store_name person_name (typed_items ! n)) =
              options_summary (snd (typed_items ! n))"
  proof (intro allI impI)
    fix n assume "n < length items"
    with assms(2) have "item_view (items ! n) (typed_items ! n)" by (simp add: list_all2_nthD)
    then show "py_getitem (items ! n) ''name'' = Inr (fst (typed_items ! n))
          \<and> row_item (flat_row order_id delivery_time store_name person_name (typed_items ! n)) =
              fst (typed_items ! n)
          \<and> row_options (flat_row order_id delivery_time store_name person_name (typed_items ! n)) =
              options_summary (snd (typed_items ! n))"
      by (simp add: item_view_def flat_row_def)
  qed
  have e: "options_summary extras =
        join '', '' (map (\<lambda>p. py_str (fst p) @ '': '' @ py_str (snd p))
          (concat (map (\<lambda>e. map (\<lambda>option_name. (fst e, option_name)) (snd e)) extras)))"
    by (simp add: options_summary_def option_pairs_def)
  have f: "concat (map snd extras) = [] \<longrightarrow> options_summary extras = []"
  proof
    assume "concat (map snd extras) = []"
    then have "option_pairs extras = []" by (induction extras) (auto simp: option_pairs_def)
    then show "options_summary extras = []" by (rule options_summary_no_options)
  qed
  from a b c d e f length_flat_rows show ?thesis by blast
qed

theorem flattening_one_row_per_item_witness:
  "items_loop (JStr ''u-1'') (JStr ''2023-05-01T12:00:00Z'') (JStr ''Cantina'') ''Bo''
      [JObj [(''name'', JStr ''Burrito''),
             (''orderItemExtras'', JArr [JObj [(''name'', JStr ''Protein''),
                (''orderItemExtraOptions'', JArr [JObj [(''name'', JStr ''Steak'')], JObj [(''name'', JStr ''Egg'')]])],
               JObj [(''name'', JStr ''Salsa''), (''orderItemExtraOptions'', JArr [JObj [(''name'', JStr ''Verde'')]])]])],
       JObj [(''name'', JStr ''Chips'')]] []
   = Inr [\<lparr>row_order_id = JStr ''u-1'', row_date = JStr ''2023-05-01T12:00:00Z'', row_store = JStr ''Cantina'',
            row_person = ''Bo'', row_item = JStr ''Burrito'',
            row_options = ''Protein: Steak, Protein: Egg, Salsa: Verde''\<rparr>,
          \<lparr>row_order_id = JStr ''u-1'', row_date = JStr ''2023-05-01T12:00:00Z'', row_store = JStr ''Cantina'',
            row_person = ''Bo'', row_item = JStr ''Chips'', row_options = []\<rparr>]"
proof -
  let ?items = "[JObj [(''name'', JStr ''Burrito''),
             (''orderItemExtras'', JArr [JObj [(''name'', JStr ''Protein''),
                (''orderItemExtraOptions'', JArr [JObj [(''name'', JStr ''Steak'')], JObj [(''name'', JStr ''Egg'')]])],
               JObj [(''name'', JStr ''Salsa''), (''orderItemExtraOptions'', JArr [JObj [(''name'', JStr ''Verde'')]])]])],
       JObj [(''name'', JStr ''Chips'')]]"
  let ?typed = "[(JStr ''Burrito'', [(JStr ''Protein'', [JStr ''Steak'', JStr ''Egg'']), (JStr ''Salsa'', [JStr ''Verde''])]),
                 (JStr ''Chips'', [])]"
  have h1: "list_all2 sub_order_view [] []" by simp
  have h2: "list_all2 item_view ?items ?typed"
    by (simp add: item_view_def extra_view_def option_view_def)
  from flattening_one_row_per_item [OF h1 h2, of "JStr ''u-1''" "JStr ''2023-05-01T12:00:00Z''" "JStr ''Cantina''" "[]" "''Bo''"]
  show ?thesis
    by (simp add: flat_row_def options_summary_def option_pairs_def)
qed

subsection \<open>The order id\<close>

lemma items_loop_appends:
  "items_loop oid dt st pn items rows = Inr rows' \<Longrightarrow>
   \<exists>new. rows' = rows @ new \<and> length new = length items \<and>
     (\<forall>r\<in>set new. row_order_id r = oid \<and> row_date r = dt \<and> row_store r = st \<and> row_person r = pn)"
proof (induction items arbitrary: rows)
  case Nil
  then show ?case by simp
next
  case (Cons item items)
  from Cons.prems obtain item_name opts where
    r: "items_loop oid dt st pn items
         (rows @ [\<lparr>row_order_id = oid, row_date = dt, row_store = st, row_person = pn,
                   row_item = item_name, row_options = options_string_of opts\<rparr>]) = Inr rows'"
    by (auto simp: bnd_eq_Inr)
  from Cons.IH [OF r] show ?case by auto
qed

lemma sub_orders_loop_appends:
  "sub_orders_loop oid dt st subs rows = Inr rows' \<Longrightarrow>
   \<exists>new. rows' = rows @ new \<and>
     (\<forall>r\<in>set new. row_order_id r = oid \<and> row_date r = dt \<and> row_store r = st)"
proof (induction subs arbitrary: rows)
  case Nil
  then show ?case by simp
next
  case (Cons sub subs)
  from Cons.prems obtain pn item_list rows1 where
    a: "items_loop oid dt st pn item_list rows = Inr rows1"
    and b: "sub_orders_loop oid dt st subs rows1 = Inr rows'"
    by (auto simp: bnd_eq_Inr)
  from items_loop_appends [OF a] obtain new1 where
    n1: "rows1 = rows @ new1" "\<forall>r\<in>set new1. row_order_id r = oid \<and> row_date r = dt \<and> row_store r = st"
    by blast
  from Cons.IH [OF b] obtain new2 where
    n2: "rows' = rows1 @ new2" "\<forall>r\<in>set new2. row_order_id r = oid \<and> row_date r = dt \<and> row_store r = st"
    by blast
  from n1 n2 have "rows' = rows @ (new1 @ new2)
    \<and> (\<forall>r\<in>set (new1 @ new2). row_order_id r = oid \<and> row_date r = dt \<and> row_store r = st)"
    by auto
  then show ?case by blast
qed

lemma process_order_appends:
  assumes "process_order order_cart rows = Inr rows'"
  shows "\<exists>oid new. resolve_order_id order_cart = Inr oid \<and> rows' = rows @ new \<and>
           (\<forall>r\<in>set new. row_order_id r = oid)"
proof -
  from assms obtain oid dt st subs where "resolve_order_id order_cart = Inr oid"
    and "sub_orders_loop oid dt st subs rows = Inr rows'"
    by (auto simp: process_order_def bnd_eq_Inr)
  with sub_orders_loop_appends show ?thesis by blast
qed

text \<open>
  Claim C5, as stated, does not hold. An order whose \<^verbatim>\<open>orderUuid\<close> and \<^verbatim>\<open>id\<close> are both
  \<^verbatim>\<open>null\<close> is not skipped: its item becomes a row, and the row carries the id
  \<^verbatim>\<open>null\<close>. An order that has neither key is not skipped either: the lookup of
  \<^verbatim>\<open>orderUuid\<close> raises \<^verbatim>\<open>KeyError\<close>.
\<close>

theorem order_without_id_is_processed:
  "process_order
     (JObj [(''id'', JNull), (''orderUuid'', JNull), (''createdAt'', JStr ''2023-05-01T12:00:00Z''),
            (''store'', JObj [(''name'', JStr ''Cantina'')]),
            (''orders'', JArr [JObj [(''creator'', JObj [(''firstName'', JStr ''Amy'')]),
                                     (''items'', JArr [JObj [(''name'', JStr ''Taco'')]])]])]) []
   = Inr [\<lparr>row_order_id = JNull, row_date = JStr ''2023-05-01T12:00:00Z'', row_store = JStr ''Cantina'',
            row_person = ''Amy'', row_item = JStr ''Taco'', row_options = []\<rparr>]
   \<and> process_order
     (JObj [(''createdAt'', JStr ''2023-05-01T12:00:00Z''),
            (''store'', JObj [(''name'', JStr ''Cantina'')]),
            (''orders'', JArr [JObj [(''creator'', JObj [(''firstName'', JStr ''Amy'')]),
                                     (''items'', JArr [JObj [(''name'', JStr ''Taco'')]])]])]) []
   = Inl KeyError"
  by (simp add: process_order_def resolve_delivery_time_def resolve_order_id_def py_get_def
      person_name_of_def py_or_def strip_def py_isspace_def item_options_def options_string_of_def)

lemma row_order_id_flat_rows: "r \<in> set (flat_rows oid dt st typed) \<Longrightarrow> row_order_id r = oid"
  by (auto simp: flat_rows_def flat_row_def)

text \<open>
  Claim C5, amended. For an order that has both keys, the order id is the value of
  \<^verbatim>\<open>orderUuid\<close> when that is non-empty (truthy) and the value of \<^verbatim>\<open>id\<close> otherwise; it
  is non-empty exactly when one of the two is. Whether it is empty or not, the order is
  processed: when its store, its date and its sub-orders can be read, it adds one row
  for every item of every sub-order, and every one of these rows carries the order id.
\<close>

theorem order_id_resolution:
  assumes "py_getitem order_cart ''orderUuid'' = Inr order_uuid"
    and "py_getitem order_cart ''id'' = Inr numeric_id"
    and "py_getitem order_cart ''store'' = Inr store"
    and "py_getitem store ''name'' = Inr store_name"
    and "resolve_delivery_time order_cart = Inr delivery_time"
    and "py_getitem order_cart ''orders'' = Inr orders"
    and "py_iter orders = Inr sub_orders"
    and "list_all2 sub_order_view sub_orders typed"
  shows "resolve_order_id order_cart = Inr (py_or order_uuid numeric_id)
    \<and> (py_truthy (py_or order_uuid numeric_id) \<longleftrightarrow> py_truthy order_uuid \<or> py_truthy numeric_id)
    \<and> (py_truthy order_uuid \<longrightarrow> py_or order_uuid numeric_id = order_uuid)
    \<and> (\<not> py_truthy order_uuid \<longrightarrow> py_or order_uuid numeric_id = numeric_id)
    \<and> process_order order_cart rows =
          Inr (rows @ flat_rows (py_or order_uuid numeric_id) delivery_time store_name typed)
    \<and> length (flat_rows (py_or order_uuid numeric_id) delivery_time store_name typed) =
          sum_list (map (\<lambda>s. length (snd s)) typed)
    \<and> (\<forall>r\<in>set (flat_rows (py_or order_uuid numeric_id) delivery_time store_name typed).
          row_order_id r = py_or order_uuid numeric_id)"
proof -
  have a: "resolve_order_id order_cart = Inr (py_or order_uuid numeric_id)"
    using assms(1,2) by (simp add: resolve_order_id_def py_or_def)
  have b: "process_order order_cart rows =
          Inr (rows @ flat_rows (py_or order_uuid numeric_id) delivery_time store_name typed)"
    using assms(3-7) a sub_orders_loop_view [OF assms(8)]
    by (simp add: process_order_def)
  from a b show ?thesis
    by (simp add: py_or_def length_flat_rows row_order_id_flat_rows)
qed

theorem order_id_resolution_witness:
  "process_order
     (JObj [(''id'', JNum 0), (''orderUuid'', JStr []), (''createdAt'', JStr ''2023-05-01T12:00:00Z''),
            (''store'', JObj [(''name'', JStr ''Cantina'')]),
            (''orders'', JArr [JObj [(''creator'', JObj [(''firstName'', JStr ''Amy'')]),
                                     (''items'', JArr [JObj [(''name'', JStr ''Taco'')],
                                                       JObj [(''name'', JStr ''Chips'')]])]])]) []
   = Inr [\<lparr>row_order_id = JNum 0, row_date = JStr ''2023-05-01T12:00:00Z'', row_store = JStr ''Cantina'',
            row_person = ''Amy'', row_item = JStr ''Taco'', row_options = []\<rparr>,
          \<lparr>row_order_id = JNum 0, row_date = JStr ''2023-05-01T12:00:00Z'', row_store = JStr ''Cantina'',
            row_person = ''Amy'', row_item = JStr ''Chips'', row_options = []\<rparr>]"
proof -
  let ?subs = "[JObj [(''creator'', JObj [(''firstName'', JStr ''Amy'')]),
                      (''items'', JArr [JObj [(''name'', JStr ''Taco'')], JObj [(''name'', JStr ''Chips'')]])]]"
  let ?store = "JObj [(''name'', JStr ''Cantina'')]"
  let ?cart = "JObj [(''id'', JNum 0), (''orderUuid'', JStr []), (''createdAt'', JStr ''2023-05-01T12:00:00Z''),
            (''store'', ?store), (''orders'', JArr ?subs)]"
  let ?typed = "[(''Amy'', [(JStr ''Taco'', []), (JStr ''Chips'', [])])]"
  have h1: "py_getitem ?cart ''orderUuid'' = Inr (JStr [])" by simp
  have h2: "py_getitem ?cart ''id'' = Inr (JNum 0)" by simp
  have h3: "py_getitem ?cart ''store'' = Inr ?store" by simp
  have h4: "py_getitem ?store ''name'' = Inr (JStr ''Cantina'')" by simp
  have h5: "resolve_delivery_time ?cart = Inr (JStr ''2023-05-01T12:00:00Z'')"
    by (simp add: resolve_delivery_time_def py_get_def)
  have h6: "py_getitem ?cart ''orders'' = Inr (JArr ?subs)" by simp
  have h7: "py_iter (JArr ?subs) = Inr ?subs" by simp
  have h8: "list_all2 sub_order_view ?subs ?typed"
    by (simp add: sub_order_view_def person_name_of_def py_get_def py_or_def strip_def py_isspace_def
        item_view_def)
  from order_id_resolution [OF h1 h2 h3 h4 h5 h6 h7 h8, of "[]"]
  show ?thesis
    by (simp add: py_or_def flat_rows_def flat_row_def options_summary_def option_pairs_def)
qed

section \<open>Properties of the pivot table\<close>

subsection \<open>The counter and the order of the columns\<close>

lemma set_first_seen [simp]: "set (first_seen xs) = set xs"
  by (induction xs) auto

lemma distinct_first_seen [simp]: "distinct (first_seen xs)"
  by (induction xs) auto

lemma filter_first_seen: "filter P (first_seen xs) = first_seen (filter P xs)"
proof (induction xs)
  case Nil
  then show ?case by simp
next
  case (Cons x xs)
  show ?case
  proof (cases "P x")
    case True
    have "filter P (filter (\<lambda>y. y \<noteq> x) (first_seen xs)) =
          filter (\<lambda>y. y \<noteq> x) (filter P (first_seen xs))"
      by (simp add: conj_commute)
    with True Cons.IH show ?thesis by simp
  next
    case False
    have "filter P (filter (\<lambda>y. y \<noteq> x) (first_seen xs)) = filter P (first_seen xs)"
      using False by (auto intro: filter_cong)
    with False Cons.IH show ?thesis by simp
  qed
qed

lemma map_fst_dict_set:
  "map fst (dict_set d k v) = (if k \<in> set (map fst d) then map fst d else map fst d @ [k])"
proof (induction d)
  case Nil
  then show ?case by simp
next
  case (Cons kv d)
  then show ?case by (cases kv) (auto simp: image_iff)
qed

lemma map_of_dict_set: "map_of (dict_set d k v) = (map_of d)(k \<mapsto> v)"
  by (induction d) (auto simp: fun_eq_iff)












subsection \<open>The grouping by order\<close>

lemma by_order_id_loop_step:
  assumes "by_order_id_loop (r # rows) b = Inr b'"
  shows "py_hashable (row_order_id r) \<and>
     by_order_id_loop rows
       (dict_set b (order_key r)
          (dict_set (dict_set (dict_set (dict_of b (order_key r)) ''date'' (row_date r))
             ''store'' (row_store r)) (row_person r) (pivot_cell r))) = Inr b'"
  using assms by (simp add: Let_def order_key_def dict_of_def split: if_splits)

lemma by_order_id_loop_keys:
  "by_order_id_loop rows b = Inr b' \<Longrightarrow>
   map fst b' = map fst b @ first_seen [k\<leftarrow>map order_key rows. k \<notin> set (map fst b)]"
proof (induction rows arbitrary: b)
  case Nil
  then show ?case by simp
next
  case (Cons r rows)
  let ?k = "order_key r"
  let ?b1 = "dict_set b ?k
          (dict_set (dict_set (dict_set (dict_of b ?k) ''date'' (row_date r))
             ''store'' (row_store r)) (row_person r) (pivot_cell r))"
  from by_order_id_loop_step [OF Cons.prems] have run: "by_order_id_loop rows ?b1 = Inr b'" by simp
  from Cons.IH [OF run] have step: "map fst b' =
      map fst ?b1 @ first_seen [k\<leftarrow>map order_key rows. k \<notin> set (map fst ?b1)]" .
  show ?case
  proof (cases "?k \<in> set (map fst b)")
    case True
    then have "map fst ?b1 = map fst b" by (simp add: map_fst_dict_set)
    with step True show ?thesis by (simp del: set_map)
  next
    case False
    then have k: "map fst ?b1 = map fst b @ [?k]" by (simp add: map_fst_dict_set)
    have "[k\<leftarrow>map order_key rows. k \<notin> set (map fst b @ [?k])] =
          filter (\<lambda>y. y \<noteq> ?k) [k\<leftarrow>map order_key rows. k \<notin> set (map fst b)]"
      by (auto intro: filter_cong)
    then have "first_seen [k\<leftarrow>map order_key rows. k \<notin> set (map fst ?b1)] =
          filter (\<lambda>y. y \<noteq> ?k) (first_seen [k\<leftarrow>map order_key rows. k \<notin> set (map fst b)])"
      by (simp only: k filter_first_seen)
    with step k False show ?thesis by (simp del: set_map)
  qed
qed

lemma last_row_of_Cons:
  "last_row_of (r # rows) k p =
     (case last_row_of rows k p of
        Some r' \<Rightarrow> Some r'
      | None \<Rightarrow> if order_key r = k \<and> row_person r = p then Some r else None)"
  by (auto simp: last_row_of_def split: list.splits)

lemma by_order_id_loop_cells:
  assumes "p \<noteq> ''date''" and "p \<noteq> ''store''"
  shows "by_order_id_loop rows b = Inr b' \<Longrightarrow>
   map_of (dict_of b' k) p =
     (case last_row_of rows k p of
        None \<Rightarrow> map_of (dict_of b k) p
      | Some r \<Rightarrow> Some (pivot_cell r))"
proof (induction rows arbitrary: b)
  case Nil
  then show ?case by (simp add: last_row_of_def)
next
  case (Cons r rows)
  let ?k = "order_key r"
  let ?o3 = "dict_set (dict_set (dict_set (dict_of b ?k) ''date'' (row_date r))
             ''store'' (row_store r)) (row_person r) (pivot_cell r)"
  let ?b1 = "dict_set b ?k ?o3"
  from by_order_id_loop_step [OF Cons.prems] have run: "by_order_id_loop rows ?b1 = Inr b'" by simp
  have o3: "map_of ?o3 p = (if row_person r = p then Some (pivot_cell r) else map_of (dict_of b ?k) p)"
    using assms by (simp add: map_of_dict_set)
  have b1: "map_of (dict_of ?b1 k) p =
      (if ?k = k \<and> row_person r = p then Some (pivot_cell r) else map_of (dict_of b k) p)"
    using o3 by (auto simp: dict_of_def map_of_dict_set)
  from Cons.IH [OF run] have "map_of (dict_of b' k) p =
     (case last_row_of rows k p of
        None \<Rightarrow> map_of (dict_of ?b1 k) p
      | Some r \<Rightarrow> Some (pivot_cell r))" .
  then have ih: "map_of (dict_of b' k) p =
     (case last_row_of rows k p of
        None \<Rightarrow> (if ?k = k \<and> row_person r = p then Some (pivot_cell r)
                 else map_of (dict_of b k) p)
      | Some r \<Rightarrow> Some (pivot_cell r))"
    by (simp only: b1)
  show ?case
  proof (cases "last_row_of rows k p")
    case None
    with ih show ?thesis by (simp add: last_row_of_Cons)
  next
    case (Some r')
    with ih show ?thesis by (simp add: last_row_of_Cons)
  qed
qed

lemma pivot_rows_shape:
  "pivot_rows people orders = Inr body \<Longrightarrow>
   length body = length orders \<and>
   (\<forall>n<length orders. drop 2 (body ! n) = people_values people (orders ! n))"
proof (induction orders arbitrary: body)
  case Nil
  then show ?case by simp
next
  case (Cons order orders)
  from Cons.prems obtain d s t where t: "pivot_rows people orders = Inr t"
    and b: "body = ([d, s] @ people_values people order) # t"
    by (auto simp: bnd_eq_Inr)
  from Cons.IH [OF t] have l: "length t = length orders"
    and c: "\<forall>n<length orders. drop 2 (t ! n) = people_values people (orders ! n)" by simp_all
  show ?case
  proof (intro conjI allI impI)
    show "length body = length (order # orders)" using b l by simp
  next
    fix n assume "n < length (order # orders)"
    then show "drop 2 (body ! n) = people_values people ((order # orders) ! n)"
      using b c by (cases n) simp_all
  qed
qed

lemma pivot_table_shape:
  assumes "pivot_table rows = Inr t"
  shows "\<exists>b body. by_order_id_loop rows [] = Inr b
     \<and> map fst b = first_seen (map order_key rows)
     \<and> t = map JStr (''Date'' # ''Store'' # people_of rows) # body
     \<and> length body = length b
     \<and> (\<forall>n<length b. drop 2 (body ! n) = people_values (people_of rows) (snd (b ! n)))"
proof -
  from assms obtain b body where b: "by_order_id_loop rows [] = Inr b"
    and p: "pivot_rows (people_of rows) (map snd b) = Inr body"
    and t: "t = map JStr ([''Date'', ''Store''] @ people_of rows) # body"
    by (auto simp: pivot_table_def bnd_eq_Inr Let_def)
  from by_order_id_loop_keys [OF b] have k: "map fst b = first_seen (map order_key rows)" by simp
  from pivot_rows_shape [OF p] have "length body = length b"
    and "\<forall>n<length b. drop 2 (body ! n) = people_values (people_of rows) (snd (b ! n))"
    by simp_all
  with b k t show ?thesis by simp
qed





subsection \<open>The cells\<close>

lemma example_order_rows: "process_order example_order [] = Inr [amy_taco, bo_burrito]"
  by (simp add: example_order_def process_order_def resolve_delivery_time_def resolve_order_id_def
      py_get_def person_name_of_def py_or_def strip_def py_isspace_def item_options_def
      options_string_of_def amy_taco_def bo_burrito_def)

lemma example_order_pivot:
  "pivot_table [amy_taco, bo_burrito] =
     Inr [[JStr ''Date'', JStr ''Store'', JStr ''Amy'', JStr ''Bo''],
          [JStr ''2023-05-01'', JStr ''Cantina'', JStr ''Taco. '', JStr ''Burrito. Protein: Steak'']]"
  by (simp add: pivot_table_def people_of_def most_common_def people_values_def pivot_cell_def
      amy_taco_def bo_burrito_def Let_def)

lemma pivot_cell_of_person_named_store:
  "pivot_table [amy_taco\<lparr>row_person := ''store''\<rparr>, bo_burrito] =
     Inr [[JStr ''Date'', JStr ''Store'', JStr ''store'', JStr ''Bo''],
          [JStr ''2023-05-01'', JStr ''Cantina'', JStr ''Cantina'', JStr ''Burrito. Protein: Steak'']]"
  by (simp add: pivot_table_def people_of_def most_common_def people_values_def pivot_cell_def
      amy_taco_def bo_burrito_def Let_def)

lemma dict_of_nth:
  assumes "distinct (map fst b)" and "n < length b"
  shows "dict_of b (fst (b ! n)) = snd (b ! n)"
proof -
  from assms(2) have "(fst (b ! n), snd (b ! n)) \<in> set b" by simp
  with assms(1) have "map_of b (fst (b ! n)) = Some (snd (b ! n))" by (rule map_of_is_SomeI)
  then show ?thesis by (simp add: dict_of_def)
qed

text \<open>
  Claim C9, as stated, does not hold on its own example: the cell is the item, a full
  stop, a space and the options, so with no options Amy's cell is \<^verbatim>\<open>Taco. \<close> with the
  space at its end, not \<^verbatim>\<open>Taco.\<close>.
\<close>

theorem pivot_cell_example_has_trailing_space:
  "bnd (process_order example_order []) pivot_table =
     Inr [[JStr ''Date'', JStr ''Store'', JStr ''Amy'', JStr ''Bo''],
          [JStr ''2023-05-01'', JStr ''Cantina'', JStr ''Taco. '', JStr ''Burrito. Protein: Steak'']]
   \<and> JStr ''Taco. '' \<noteq> JStr ''Taco.''"
  by (simp add: example_order_rows example_order_pivot)

text \<open>
  Claim C9, amended. When the pivot table is written, the cell of data line \<open>n\<close> in
  the column of person \<open>i\<close>, for a person whose name is neither \<^verbatim>\<open>date\<close> nor \<^verbatim>\<open>store\<close>
  (the two keys the order's own entry uses), holds the item, a full stop, a space and
  the options of that person's last row in the \<open>n\<close>-th order, and the empty text when
  the person has no row in that order. For the example order the line is
  \<^verbatim>\<open>2023-05-01\<close>, \<^verbatim>\<open>Cantina\<close>, \<^verbatim>\<open>Taco. \<close>, \<^verbatim>\<open>Burrito. Protein: Steak\<close>.
\<close>

theorem pivot_cell_is_last_item:
  assumes "pivot_table rows = Inr t"
    and "n < length (first_seen (map order_key rows))"
    and "i < length (people_of rows)"
    and "people_of rows ! i \<noteq> ''date''"
    and "people_of rows ! i \<noteq> ''store''"
  shows "t ! Suc n ! (2 + i) =
      (case last_row_of rows (first_seen (map order_key rows) ! n) (people_of rows ! i) of
         None \<Rightarrow> JStr []
       | Some r \<Rightarrow> JStr (py_str (row_item r) @ ''. '' @ row_options r))
    \<and> bnd (process_order example_order []) pivot_table =
        Inr [[JStr ''Date'', JStr ''Store'', JStr ''Amy'', JStr ''Bo''],
             [JStr ''2023-05-01'', JStr ''Cantina'', JStr ''Taco. '', JStr ''Burrito. Protein: Steak'']]"
proof -
  let ?p = "people_of rows ! i"
  let ?k = "first_seen (map order_key rows) ! n"
  from pivot_table_shape [OF assms(1)] obtain b body where
    b: "by_order_id_loop rows [] = Inr b"
    and k: "map fst b = first_seen (map order_key rows)"
    and t: "t = map JStr (''Date'' # ''Store'' # people_of rows) # body"
    and l: "length body = length b"
    and c: "\<forall>n<length b. drop 2 (body ! n) = people_values (people_of rows) (snd (b ! n))"
    by blast
  from k have lb: "length b = length (first_seen (map order_key rows))"
    by (metis length_map)
  with assms(2) have n: "n < length b" by simp
  from k have d: "distinct (map fst b)" by simp
  from k n have fk: "fst (b ! n) = ?k" by (metis nth_map)
  from c n have dr: "drop 2 (body ! n) = people_values (people_of rows) (snd (b ! n))" by simp
  then have "length (body ! n) - 2 = length (people_of rows)"
    by (metis length_drop length_map people_values_def)
  with assms(3) have len: "2 + i < length (body ! n)" by simp
  have "t ! Suc n ! (2 + i) = body ! n ! (2 + i)" using t by simp
  also have "\<dots> = drop 2 (body ! n) ! i" using len by simp
  also have "\<dots> = people_values (people_of rows) (snd (b ! n)) ! i" by (simp only: dr)
  also have "\<dots> = (case map_of (snd (b ! n)) ?p of None \<Rightarrow> JStr [] | Some v \<Rightarrow> v)"
    using assms(3) by (simp add: people_values_def)
  also have "snd (b ! n) = dict_of b ?k" using dict_of_nth [OF d n] fk by simp
  also have "map_of (dict_of b ?k) ?p =
      (case last_row_of rows ?k ?p of None \<Rightarrow> map_of (dict_of [] ?k) ?p | Some r \<Rightarrow> Some (pivot_cell r))"
    using assms(4,5) b by (rule by_order_id_loop_cells)
  finally have "t ! Suc n ! (2 + i) =
      (case last_row_of rows ?k ?p of None \<Rightarrow> JStr [] | Some r \<Rightarrow> pivot_cell r)"
    by (simp add: dict_of_def split: option.splits)
  then show ?thesis
    by (simp add: pivot_cell_def example_order_rows example_order_pivot split: option.splits)
qed

theorem pivot_cell_is_last_item_witness:
  "(case pivot_table [amy_taco, bo_chips, bo_burrito] of Inr t \<Rightarrow> t ! 1 ! 2 | Inl e \<Rightarrow> JNull)
     = JStr ''Burrito. Protein: Steak''"
proof -
  let ?rows = "[amy_taco, bo_chips, bo_burrito]"
  have p: "people_of ?rows = [''Bo'', ''Amy'']"
    by (simp add: people_of_def most_common_def amy_taco_def bo_chips_def bo_burrito_def)
  have f: "first_seen (map order_key ?rows) = [JStr ''u-1'', JStr ''u-2'']"
    by (simp add: order_key_def amy_taco_def bo_chips_def bo_burrito_def)
  obtain t where t: "pivot_table ?rows = Inr t"
    by (simp add: pivot_table_def people_of_def most_common_def people_values_def pivot_cell_def
      amy_taco_def bo_chips_def bo_burrito_def Let_def)
  have h2: "0 < length (first_seen (map order_key ?rows))" by (simp add: f)
  have h3: "0 < length (people_of ?rows)" by (simp add: p)
  have h4: "people_of ?rows ! 0 \<noteq> ''date''" by (simp add: p)
  have h5: "people_of ?rows ! 0 \<noteq> ''store''" by (simp add: p)
  have "last_row_of ?rows (JStr ''u-1'') ''Bo'' = Some bo_burrito"
    by (simp add: last_row_of_def order_key_def amy_taco_def bo_chips_def bo_burrito_def)
  moreover have "order_key amy_taco = JStr ''u-1''"
    by (simp add: order_key_def amy_taco_def)
  ultimately have "t ! 1 ! 2 = JStr (py_str (row_item bo_burrito) @ ''. '' @ row_options bo_burrito)"
    using pivot_cell_is_last_item [OF t h2 h3 h4 h5] by (simp add: p)
  then have "t ! 1 ! 2 = JStr ''Burrito. Protein: Steak''"
    by (simp add: bo_burrito_def)
  with t show ?thesis by simp
qed

section \<open>The whole run on the example\<close>

text \<open>
  A run against an empty directory and a network that holds the example order on its
  first page and nothing after it: two passes of the loop, and both tables come out.
\<close>

lemma execute_example:
  "execute (\<lambda>limit offset. Inr (page_of (if offset = 0 then [example_order] else []))) 2
      \<lparr>files = (\<lambda>name. Absent), trace = []\<rparr>
   = Exported
       [[JStr ''Date'', JStr ''Store'', JStr ''Person'', JStr ''Item'', JStr ''Options''],
        [JStr ''2023-05-01'', JStr ''Cantina'', JStr ''Amy'', JStr ''Taco'', JStr []],
        [JStr ''2023-05-01'', JStr ''Cantina'', JStr ''Bo'', JStr ''Burrito'', JStr ''Protein: Steak'']]
       [[JStr ''Date'', JStr ''Store'', JStr ''Amy'', JStr ''Bo''],
        [JStr ''2023-05-01'', JStr ''Cantina'', JStr ''Taco. '', JStr ''Burrito. Protein: Steak'']]"
proof -
  let ?f = "\<lambda>limit offset. Inr (page_of (if offset = 0 then [example_order] else [])) :: error + json"
  let ?w = "\<lparr>files = (\<lambda>name. Absent), trace = []\<rparr>"
  have n: "orders_filename 20 20 \<noteq> orders_filename 20 0"
    using orders_filename_inj [of 1 0] by (auto simp: page_offset_def)
  have c: "\<And>orders. check_response (page_of orders) = Inr (JArr orders)"
    by (simp add: page_of_def check_response_def py_get_def)
  have "fst (fetch_all_orders ?f 2 ?w) = Finished
      \<and> yielded (trace (snd (fetch_all_orders ?f 2 ?w))) = [example_order]"
    using n by (simp add: fetch_all_orders_def numeral_2_eq_2 fetch_orders_persisted_def Let_def emit_def c
        yielded_def example_order_def)
  moreover have "itemized_table [amy_taco, bo_burrito] =
      Inr [[JStr ''Date'', JStr ''Store'', JStr ''Person'', JStr ''Item'', JStr ''Options''],
        [JStr ''2023-05-01'', JStr ''Cantina'', JStr ''Amy'', JStr ''Taco'', JStr []],
        [JStr ''2023-05-01'', JStr ''Cantina'', JStr ''Bo'', JStr ''Burrito'', JStr ''Protein: Steak'']]"
    by (simp add: itemized_table_def amy_taco_def bo_burrito_def)
  ultimately show ?thesis
    by (simp add: execute_def split_beta example_order_rows example_order_pivot)
qed

end
